theory Spec2Isabelle
  imports Complex_Main "HOL-Library.Word" "HOL-Library.Log_Nat"
begin

unbundle bit_operations_syntax

section \<open>Strings: the operations of std::string used by the recorder\<close>

text \<open>
  A std::string is a list of bytes; positions and lengths are size_t values, modelled
  as naturals (no operation below can exceed the string's length by more than one).
  \<open>str_find s pat pos\<close> is \<open>s.find(pat, pos)\<close>: the lowest position not below
  \<open>pos\<close> at which \<open>pat\<close> occurs, \<open>None\<close> standing for \<open>npos\<close>.
\<close>

fun find_prefix :: "string \<Rightarrow> string \<Rightarrow> nat \<Rightarrow> nat option" where
  "find_prefix pat [] i = (if pat = [] then Some i else None)"
| "find_prefix pat (c # cs) i =
     (if take (length pat) (c # cs) = pat then Some i else find_prefix pat cs (Suc i))"

definition str_find :: "string \<Rightarrow> string \<Rightarrow> nat \<Rightarrow> nat option" where
  "str_find s pat pos = (if length s < pos then None else find_prefix pat (drop pos s) pos)"

datatype error = OutOfRange

text \<open>\<open>s.substr(pos, n)\<close> throws std::out_of_range when \<open>pos\<close> is beyond the end.\<close>

definition substr :: "string \<Rightarrow> nat \<Rightarrow> nat \<Rightarrow> error + string" where
  "substr s pos n = (if length s < pos then Inl OutOfRange else Inr (take n (drop pos s)))"

definition dquote :: char where
  "dquote = CHR 0x22"

definition text_key :: string where
  "text_key = dquote # ''text'' @ [dquote]"

section \<open>Result Extractor\<close>

definition extractTextFromJson :: "string \<Rightarrow> error + string" where
  "extractTextFromJson jsonStr =
     (case str_find jsonStr text_key 0 of
        None \<Rightarrow> Inr []
      | Some textPos \<Rightarrow>
     (case str_find jsonStr '':'' textPos of
        None \<Rightarrow> Inr []
      | Some colonPos \<Rightarrow>
     (case str_find jsonStr [dquote] colonPos of
        None \<Rightarrow> Inr []
      | Some startQuote \<Rightarrow>
     (case str_find jsonStr [dquote] (startQuote + 1) of
        None \<Rightarrow> Inr []
      | Some endQuote \<Rightarrow> substr jsonStr (startQuote + 1) (endQuote - startQuote - 1)))))"

text \<open>
  The declarative reading of a search: \<open>occurs_at pat s p\<close> says that \<open>pat\<close> is the
  part of \<open>s\<close> that starts at position \<open>p\<close>.
\<close>

definition occurs_at :: "string \<Rightarrow> string \<Rightarrow> nat \<Rightarrow> bool" where
  "occurs_at pat s p \<longleftrightarrow> p + length pat \<le> length s \<and> take (length pat) (drop p s) = pat"

definition first_from :: "string \<Rightarrow> string \<Rightarrow> nat \<Rightarrow> nat \<Rightarrow> bool" where
  "first_from pat s pos p \<longleftrightarrow>
     pos \<le> p \<and> occurs_at pat s p \<and> (\<forall>q. pos \<le> q \<and> q < p \<longrightarrow> \<not> occurs_at pat s q)"

definition absent_from :: "string \<Rightarrow> string \<Rightarrow> nat \<Rightarrow> bool" where
  "absent_from pat s pos \<longleftrightarrow> (\<forall>q. pos \<le> q \<longrightarrow> \<not> occurs_at pat s q)"

section \<open>Data model\<close>

type_synonym byte = "8 word"
type_synonym int16 = "16 word"

text \<open>
  The files the program reads and writes. \<open>contents\<close> maps a file name to what the
  file holds, \<open>writable\<close> says whether opening it for writing succeeds, and \<open>writes\<close>
  is the history of every write that took place, oldest first.
\<close>

datatype file_data = Text string | Binary "byte list"

record filesystem =
  contents :: "string \<Rightarrow> file_data option"
  writable :: "string \<Rightarrow> bool"
  writes :: "(string \<times> file_data) list"

text \<open>
  The Vosk library is not part of the repository: its operations are a parameter of the
  model. \<open>'m\<close> is what a model handle stands for and \<open>'r\<close> the internal state of a
  recognizer; every operation on a recognizer returns the recognizer's next state.
  \<open>vosk_recognizer_accept_waveform\<close> returns a C int, which the caller tests for being
  non-zero.
\<close>

record ('m, 'r) vosk =
  vosk_model_new :: "string \<Rightarrow> 'm option"
  vosk_recognizer_new :: "'m \<Rightarrow> 'r option"
  vosk_recognizer_partial_result :: "'r \<Rightarrow> string \<times> 'r"
  vosk_recognizer_accept_waveform :: "'r \<Rightarrow> byte list \<Rightarrow> int \<times> 'r"
  vosk_recognizer_result :: "'r \<Rightarrow> string \<times> 'r"
  vosk_recognizer_final_result :: "'r \<Rightarrow> string \<times> 'r"

datatype vosk_call = PartialResult | AcceptWaveform "byte list" | Result | FinalResult

text \<open>
  The members of class AudioRecorder (\<open>running\<close>, \<open>audioData\<close>, \<open>model\<close>, \<open>rec\<close>,
  \<open>accumulatedText\<close>; a null pointer is \<open>None\<close>), together with the world the object
  acts on: the file system, the trace of the calls made on the recognizer, and whether
  the signal handlers have been installed.
\<close>

record ('m, 'r) AudioRecorder =
  running :: bool
  audioData :: "int16 list"
  model :: "'m option"
  rec :: "'r option"
  accumulatedText :: string
  fs :: filesystem
  calls :: "vosk_call list"
  handlers_installed :: bool

definition MODEL_PATH :: string where
  "MODEL_PATH = ''/home/kaplan/Documents/vosk-model-small-en-us-0.15''"

definition OUTPUT_TEXT_FILE :: string where
  "OUTPUT_TEXT_FILE = ''recognized_text.txt''"

definition AUDIO_LEVEL_FILE :: string where
  "AUDIO_LEVEL_FILE = ''audio_level.txt''"

definition MODEL_CONFIG_FILE :: string where
  "MODEL_CONFIG_FILE = ''current_model.txt''"

definition newline :: char where
  "newline = CHR 0x0A"

section \<open>State Publisher\<close>

text \<open>
  \<open>writeToFile\<close> opens the file truncating it and, if that succeeded, writes the content
  followed by a line end; a file that cannot be opened is left as it is.
\<close>

definition writeToFile :: "string \<Rightarrow> string \<Rightarrow> filesystem \<Rightarrow> filesystem" where
  "writeToFile filename content f =
     (if writable f filename
      then f\<lparr>contents := (contents f)(filename \<mapsto> Text (content @ [newline])),
             writes := writes f @ [(filename, Text (content @ [newline]))]\<rparr>
      else f)"

definition clearFiles :: "('m, 'r) AudioRecorder \<Rightarrow> ('m, 'r) AudioRecorder" where
  "clearFiles s =
     s\<lparr>accumulatedText := [],
       fs := writeToFile AUDIO_LEVEL_FILE ''0'' (writeToFile OUTPUT_TEXT_FILE [] (fs s))\<rparr>"

definition writePartialText :: "string \<Rightarrow> ('m, 'r) AudioRecorder \<Rightarrow> ('m, 'r) AudioRecorder" where
  "writePartialText text s =
     (if text = [] then s else s\<lparr>fs := writeToFile OUTPUT_TEXT_FILE text (fs s)\<rparr>)"

definition writeRecognizedText :: "string \<Rightarrow> ('m, 'r) AudioRecorder \<Rightarrow> ('m, 'r) AudioRecorder" where
  "writeRecognizedText text s =
     (if text = [] then s
      else let acc = (if accumulatedText s \<noteq> [] then accumulatedText s @ '' ''
                      else accumulatedText s) @ text
           in s\<lparr>accumulatedText := acc, fs := writeToFile OUTPUT_TEXT_FILE acc (fs s)\<rparr>)"

text \<open>\<open>std::to_string\<close> on an int: the decimal digits, with a minus sign if negative.\<close>

fun digits :: "nat \<Rightarrow> string" where
  "digits n = (if n < 10 then [''0123456789'' ! n]
               else digits (n div 10) @ [''0123456789'' ! (n mod 10)])"

declare digits.simps [simp del]

definition to_string :: "int \<Rightarrow> string" where
  "to_string i = (if i < 0 then CHR ''-'' # digits (nat (- i)) else digits (nat i))"

definition writeAudioLevel :: "int \<Rightarrow> ('m, 'r) AudioRecorder \<Rightarrow> ('m, 'r) AudioRecorder" where
  "writeAudioLevel level s = s\<lparr>fs := writeToFile AUDIO_LEVEL_FILE (to_string level) (fs s)\<rparr>"

text \<open>
  The object as its constructor leaves it (the default member initialisers), in a world
  with the file system \<open>f\<close>, before any call on the recognizer and with the default
  signal dispositions.
\<close>

definition new_AudioRecorder :: "filesystem \<Rightarrow> ('m, 'r) AudioRecorder" where
  "new_AudioRecorder f =
     \<lparr>running = True, audioData = [], model = None, rec = None, accumulatedText = [],
      fs = f, calls = [], handlers_installed = False\<rparr>"

text \<open>A file system without files in which every file can be created.\<close>

definition empty_fs :: filesystem where
  "empty_fs = \<lparr>contents = (\<lambda>_. None), writable = (\<lambda>_. True), writes = []\<rparr>"

section \<open>Double-precision arithmetic\<close>

text \<open>
  A finite double is a rational \<open>m * 2 ^ e\<close> whose significand \<open>m\<close> has at most 53 bits.
  An arithmetic operation on doubles returns the exact result rounded to the nearest
  double, a tie going to the even significand (IEEE 754 binary64, the default rounding
  mode). The smallest and the largest exponent are not modelled: every value computed
  by \<open>calculateAudioLevel\<close> is zero or has a magnitude between \<open>2 ^ - 64\<close> and \<open>2 ^ 32\<close>.

  \<open>exponent x\<close> is, for \<open>x > 0\<close>, the \<open>e\<close> with \<open>2 ^ e \<le> x < 2 ^ (e + 1)\<close>: it is
  the difference of the bit lengths of numerator and denominator, or one less.
\<close>

definition exponent :: "rat \<Rightarrow> int" where
  "exponent x =
     (let (p, q) = quotient_of x;
          e0 = int (floorlog 2 (nat p)) - int (floorlog 2 (nat q))
      in if 2 powi e0 \<le> x then e0 else e0 - 1)"

text \<open>Rounding to the nearest integer, the even one of two that are equally near.\<close>

definition rne :: "rat \<Rightarrow> int" where
  "rne y =
     (let f = \<lfloor>y\<rfloor>; r = y - of_int f
      in if r < 1 / 2 then f else if 1 / 2 < r then f + 1 else if even f then f else f + 1)"

definition fl :: "rat \<Rightarrow> rat" where
  "fl x =
     (if x = 0 then 0
      else let u = 2 powi (exponent \<bar>x\<bar> - 52)
           in sgn x * of_int (rne (\<bar>x\<bar> / u)) * u)"

text \<open>The conversion of a double to int discards the fraction.\<close>

definition trunc_int :: "rat \<Rightarrow> int" where
  "trunc_int x = (if 0 \<le> x then \<lfloor>x\<rfloor> else \<lceil>x\<rceil>)"

section \<open>Loudness Estimator\<close>

text \<open>
  The sum is an int32_t. \<open>abs\<close> is applied to the sample promoted to int, so the
  magnitude of \<open>-32768\<close> is \<open>32768\<close>. An addition that leaves the 32-bit range is
  undefined behaviour in C++; the model wraps around, as the x86-64 target does.
\<close>

definition wrap32 :: "int \<Rightarrow> int" where
  "wrap32 k = signed_take_bit 31 k"

fun sum_abs :: "int \<Rightarrow> int16 list \<Rightarrow> int" where
  "sum_abs acc [] = acc"
| "sum_abs acc (x # xs) = sum_abs (wrap32 (acc + \<bar>sint x\<bar>)) xs"

text \<open>
  \<open>(double)sum / sampleCount\<close> converts both operands to double (the int32_t exactly,
  the size_t with rounding) and rounds the quotient; the literal \<open>3276.7\<close> denotes the
  double nearest to it.
\<close>

definition calculateAudioLevel :: "int16 list \<Rightarrow> int" where
  "calculateAudioLevel samples =
     (if length samples = 0 then 0
      else let sum = sum_abs 0 samples;
               avgLevel = fl (of_int sum / fl (of_nat (length samples)));
               level = trunc_int (fl (avgLevel / fl (32767 / 10)))
           in if level > 10 then 10 else level)"

text \<open>
  The quantities the contract of the Loudness Estimator speaks of: the arithmetic mean of
  the absolute sample values, and that mean divided by \<open>32767 / 10\<close>, truncated and
  limited to 10, in exact arithmetic.
\<close>

definition mean_magnitude :: "int16 list \<Rightarrow> rat" where
  "mean_magnitude samples = of_int (\<Sum>x\<leftarrow>samples. \<bar>sint x\<bar>) / of_nat (length samples)"

definition level_spec :: "int16 list \<Rightarrow> int" where
  "level_spec samples =
     (if samples = [] then 0 else min 10 (trunc_int (mean_magnitude samples / (32767 / 10))))"

section \<open>Samples and bytes\<close>

text \<open>
  The program reads samples by viewing the byte buffer as an array of int16_t and writes
  them back from memory; on the x86-64 target of the bundled Vosk library a 16-bit value
  occupies two bytes, the low one first.
\<close>

definition from_le16 :: "byte \<Rightarrow> byte \<Rightarrow> 16 word" where
  "from_le16 lo hi = ucast lo OR push_bit 8 (ucast hi)"

definition le16 :: "16 word \<Rightarrow> byte list" where
  "le16 w = [ucast w, ucast (drop_bit 8 w)]"

definition le32 :: "32 word \<Rightarrow> byte list" where
  "le32 w = [ucast w, ucast (drop_bit 8 w), ucast (drop_bit 16 w), ucast (drop_bit 24 w)]"

definition chars :: "string \<Rightarrow> byte list" where
  "chars cs = map (\<lambda>c. of_nat (of_char c)) cs"

section \<open>WAV Encoder\<close>

record WAVHeader =
  chunkID :: string
  chunkSize :: "32 word"
  format :: string
  subchunk1ID :: string
  subchunk1Size :: "32 word"
  audioFormat :: "16 word"
  numChannels :: "16 word"
  sampleRate :: "32 word"
  byteRate :: "32 word"
  blockAlign :: "16 word"
  bitsPerSample :: "16 word"
  subchunk2ID :: string
  subchunk2Size :: "32 word"

text \<open>
  The header as \<open>saveWAVFile\<close> fills it: the default member initialisers, and the two
  size fields computed from the number of samples. \<open>audioData.size() * sizeof(int16_t)\<close>
  is a size_t that the assignment to the uint32_t field reduces modulo \<open>2 ^ 32\<close>.
\<close>

definition wav_header :: "int16 list \<Rightarrow> WAVHeader" where
  "wav_header samples =
     (let sz = (of_nat (length samples * 2) :: 32 word)
      in \<lparr>chunkID = ''RIFF'', chunkSize = 36 + sz, format = ''WAVE'', subchunk1ID = ''fmt '',
          subchunk1Size = 16, audioFormat = 1, numChannels = 1, sampleRate = 16000,
          byteRate = 32000, blockAlign = 2, bitsPerSample = 16, subchunk2ID = ''data'',
          subchunk2Size = sz\<rparr>)"

text \<open>
  The bytes of the struct in memory: every field lies at a multiple of its size, so there
  is no padding, and the integer fields are little-endian.
\<close>

definition header_bytes :: "WAVHeader \<Rightarrow> byte list" where
  "header_bytes h =
     chars (chunkID h) @ le32 (chunkSize h) @ chars (format h) @ chars (subchunk1ID h)
     @ le32 (subchunk1Size h) @ le16 (audioFormat h) @ le16 (numChannels h)
     @ le32 (sampleRate h) @ le32 (byteRate h) @ le16 (blockAlign h) @ le16 (bitsPerSample h)
     @ chars (subchunk2ID h) @ le32 (subchunk2Size h)"

text \<open>
  What the two \<open>file.write\<close> calls put into the file: the header, then the first
  \<open>subchunk2Size\<close> bytes of the sample vector's memory.
\<close>

definition wav_bytes :: "int16 list \<Rightarrow> byte list" where
  "wav_bytes samples =
     header_bytes (wav_header samples)
     @ take (unat (subchunk2Size (wav_header samples))) (concat (map le16 samples))"

definition write_binary :: "string \<Rightarrow> byte list \<Rightarrow> filesystem \<Rightarrow> filesystem" where
  "write_binary filename bs f =
     f\<lparr>contents := (contents f)(filename \<mapsto> Binary bs),
       writes := writes f @ [(filename, Binary bs)]\<rparr>"

text \<open>A file that cannot be created is reported on the error stream and nothing is written.\<close>

definition saveWAVFile :: "string \<Rightarrow> ('m, 'r) AudioRecorder \<Rightarrow> ('m, 'r) AudioRecorder" where
  "saveWAVFile filename s =
     (if \<not> writable (fs s) filename then s
      else s\<lparr>fs := write_binary filename (wav_bytes (audioData s)) (fs s)\<rparr>)"

text \<open>
  A reader of the format, to state what a decoder recovers: the 16-bit and 32-bit
  little-endian fields at a byte offset, the text of a four-character tag, and the
  samples of a data section.
\<close>

definition rd16 :: "byte list \<Rightarrow> nat \<Rightarrow> nat" where
  "rd16 bs off = unat (bs ! off) + 256 * unat (bs ! (off + 1))"

definition rd32 :: "byte list \<Rightarrow> nat \<Rightarrow> nat" where
  "rd32 bs off = unat (bs ! off) + 256 * unat (bs ! (off + 1))
                 + 65536 * unat (bs ! (off + 2)) + 16777216 * unat (bs ! (off + 3))"

definition rd_tag :: "byte list \<Rightarrow> nat \<Rightarrow> byte list" where
  "rd_tag bs off = take 4 (drop off bs)"

fun samples_of_bytes :: "byte list \<Rightarrow> int16 list" where
  "samples_of_bytes (lo # hi # bs) = from_le16 lo hi # samples_of_bytes bs"
| "samples_of_bytes _ = []"

section \<open>Recognizer lifecycle\<close>

definition file_text :: "file_data \<Rightarrow> string" where
  "file_text d = (case d of Text cs \<Rightarrow> cs | Binary bs \<Rightarrow> map (\<lambda>b. char_of (unat b)) bs)"

text \<open>\<open>std::getline\<close>: the characters before the first line end.\<close>

definition getline :: "string \<Rightarrow> string" where
  "getline cs = takeWhile (\<lambda>c. c \<noteq> newline) cs"

definition readCurrentModelPath :: "filesystem \<Rightarrow> string" where
  "readCurrentModelPath f =
     (case contents f MODEL_CONFIG_FILE of
        None \<Rightarrow> []
      | Some d \<Rightarrow>
          (let modelPath = getline (file_text d)
           in if modelPath \<noteq> [] \<and> contents f (modelPath @ ''/conf/model.conf'') \<noteq> None
              then modelPath else []))"

text \<open>
  \<open>initialize\<close> returns whether recognition is available. The State Publisher is reset
  by the call of \<open>clearFiles\<close> on its last line, which the two early returns do not reach.
\<close>

definition initialize ::
  "('m, 'r) vosk \<Rightarrow> ('m, 'r) AudioRecorder \<Rightarrow> bool \<times> ('m, 'r) AudioRecorder" where
  "initialize v s =
     (let p = readCurrentModelPath (fs s);
          modelPath = (if p = [] then MODEL_PATH else p);
          s1 = s\<lparr>model := vosk_model_new v modelPath\<rparr>;
          s2 = (if model s1 = None \<and> modelPath \<noteq> MODEL_PATH
                then s1\<lparr>model := vosk_model_new v MODEL_PATH\<rparr> else s1)
      in case model s2 of
           None \<Rightarrow> (False, s2)
         | Some m \<Rightarrow>
             (let s3 = s2\<lparr>rec := vosk_recognizer_new v m\<rparr>
              in if rec s3 = None then (False, s3) else (True, clearFiles s3)))"

section \<open>Signals\<close>

text \<open>
  Each of the two handlers that \<open>setSignalHandler\<close> installs is a lambda with its own
  static pointer \<open>instance\<close>, initialised to null and assigned nowhere; the handler sets
  \<open>running\<close> to false only through a non-null \<open>instance\<close>.
\<close>

definition handler_instance :: "unit option" where
  "handler_instance = None"

definition signal_lambda :: "('m, 'r) AudioRecorder \<Rightarrow> ('m, 'r) AudioRecorder" where
  "signal_lambda s = (case handler_instance of None \<Rightarrow> s | Some _ \<Rightarrow> s\<lparr>running := False\<rparr>)"

definition setSignalHandler :: "('m, 'r) AudioRecorder \<Rightarrow> ('m, 'r) AudioRecorder" where
  "setSignalHandler s = s\<lparr>handlers_installed := True\<rparr>"

text \<open>
  The delivery of SIGINT or SIGTERM to the process: the installed handler runs, or, with
  the default disposition, the process is terminated (\<open>None\<close>).
\<close>

definition deliver_signal :: "('m, 'r) AudioRecorder \<Rightarrow> ('m, 'r) AudioRecorder option" where
  "deliver_signal s = (if handlers_installed s then Some (signal_lambda s) else None)"

section \<open>Capture Session\<close>

text \<open>
  How a run ends: a function returns a value, the process is terminated by a signal, or
  an exception that nothing catches terminates it.
\<close>

datatype 'a outcome = Returned 'a | Killed | Threw error

text \<open>The local variables of \<open>record\<close> that live across loop iterations.\<close>

record loop_vars =
  buffer :: "byte list"
  totalBytes :: nat
  updateCounter :: int
  chunkBuffer :: "int16 list"

text \<open>
  \<open>fread(buffer, 1, sizeof(buffer), pipe)\<close>, where \<open>avail\<close> is what the pipe delivers to
  this call: at most 320 bytes are stored at the start of the buffer, the rest of the
  buffer keeps its content, and the number of bytes stored is returned. Any list of
  byte lists is accepted as the deliveries of a session, short ones in the middle
  included; which lists a stdio stream can produce is said apart, by \<open>stream_reads\<close>.
\<close>

definition fread :: "byte list \<Rightarrow> byte list \<Rightarrow> nat \<times> byte list" where
  "fread buf avail = (let got = take 320 avail in (length got, got @ drop (length got) buf))"

text \<open>\<open>samples[i]\<close>, with \<open>samples\<close> the buffer viewed as an array of int16_t.\<close>

definition sample_at :: "byte list \<Rightarrow> nat \<Rightarrow> int16" where
  "sample_at buf i = from_le16 (buf ! (2 * i)) (buf ! (2 * i + 1))"

text \<open>
  The recognition step of one iteration, on the chunk's bytes. The first component of
  the result is the exception that ended the step, if any.
\<close>

definition recognize_chunk ::
  "('m, 'r) vosk \<Rightarrow> byte list \<Rightarrow> ('m, 'r) AudioRecorder \<Rightarrow> error option \<times> ('m, 'r) AudioRecorder"
  where
  "recognize_chunk v chunk s =
     (case rec s of
        None \<Rightarrow> (None, s)
      | Some r \<Rightarrow>
          (let (partialResult, r1) = vosk_recognizer_partial_result v r;
               s1 = s\<lparr>rec := Some r1, calls := calls s @ [PartialResult]\<rparr>
           in case extractTextFromJson partialResult of
                Inl e \<Rightarrow> (Some e, s1)
              | Inr partialText \<Rightarrow>
                  (let s2 = (if partialText \<noteq> [] then writePartialText partialText s1 else s1);
                       (final, r2) = vosk_recognizer_accept_waveform v r1 chunk;
                       s3 = s2\<lparr>rec := Some r2, calls := calls s2 @ [AcceptWaveform chunk]\<rparr>
                   in if final \<noteq> 0
                      then (let (result, r3) = vosk_recognizer_result v r2;
                                s4 = s3\<lparr>rec := Some r3, calls := calls s3 @ [Result]\<rparr>
                            in case extractTextFromJson result of
                                 Inl e \<Rightarrow> (Some e, s4)
                               | Inr text \<Rightarrow>
                                   (None, if text \<noteq> [] then writeRecognizedText text s4 else s4))
                      else (None, s3))))"

text \<open>
  The body of the loop after a read of \<open>n > 0\<close> bytes into the buffer: the samples of
  the chunk are appended to \<open>chunkBuffer\<close> and to \<open>audioData\<close>, the level is published on
  every second iteration, and the recognizer is driven. The progress line printed every
  25th iteration changes no state of the model. The first component of the result is the
  exception that ended the iteration, if any.
\<close>

definition process_chunk ::
  "('m, 'r) vosk \<Rightarrow> nat \<Rightarrow> byte list \<Rightarrow> loop_vars \<Rightarrow> ('m, 'r) AudioRecorder
     \<Rightarrow> error option \<times> loop_vars \<times> ('m, 'r) AudioRecorder" where
  "process_chunk v n buf l s =
     (let bytesRead = (if n mod 2 \<noteq> 0 then n - 1 else n);
          sampleCount = bytesRead div 2;
          samples = map (sample_at buf) [0..<sampleCount];
          l1 = l\<lparr>buffer := buf, totalBytes := totalBytes l + bytesRead,
                 updateCounter := updateCounter l + 1,
                 chunkBuffer := chunkBuffer l @ samples\<rparr>;
          s1 = s\<lparr>audioData := audioData s @ samples\<rparr>;
          s2 = (if updateCounter l1 mod 2 = 0
                then writeAudioLevel (calculateAudioLevel samples) s1 else s1);
          (err, s3) = recognize_chunk v (take bytesRead buf) s2
      in (err, l1, s3))"

text \<open>
  The read loop. Each element of the input is one iteration as the environment shapes it:
  whether a signal is delivered before the loop condition is evaluated, and the bytes
  the pipe delivers to the iteration's \<open>fread\<close>. After the last element the pipe is at
  its end. The loop ends when \<open>running\<close> is false, on a read of zero bytes, when the
  process is terminated, or on an exception.
\<close>

fun capture_loop ::
  "('m, 'r) vosk \<Rightarrow> (bool \<times> byte list) list \<Rightarrow> loop_vars \<Rightarrow> ('m, 'r) AudioRecorder
     \<Rightarrow> unit outcome \<times> loop_vars \<times> ('m, 'r) AudioRecorder" where
  "capture_loop v [] l s = (Returned (), l, s)"
| "capture_loop v (io # rest) l s =
     (case (if fst io then deliver_signal s else Some s) of
        None \<Rightarrow> (Killed, l, s)
      | Some s0 \<Rightarrow>
          if \<not> running s0 then (Returned (), l, s0)
          else (let (n, buf) = fread (buffer l) (snd io)
                in if n = 0 then (Returned (), l\<lparr>buffer := buf\<rparr>, s0)
                   else (case process_chunk v n buf l s0 of
                           (Some e, l1, s3) \<Rightarrow> (Threw e, l1, s3)
                         | (None, l1, s3) \<Rightarrow> capture_loop v rest l1 s3)))"

text \<open>What \<open>record\<close> and \<open>main\<close> take from their environment.\<close>

record environment =
  choice :: int
  timestamp :: string
  pactl_output :: "string option option"
  popen_ok :: bool
  uninitialised :: "byte list"
  source :: "(bool \<times> byte list) list"

text \<open>
  \<open>getSystemAudioMonitor\<close>: \<open>pactl_output\<close> is \<open>None\<close> when the pipe to pactl cannot be
  opened, \<open>Some None\<close> when it yields no line, and otherwise the line that \<open>fgets\<close> reads.
\<close>

definition getSystemAudioMonitor :: "environment \<Rightarrow> string" where
  "getSystemAudioMonitor env =
     (case pactl_output env of
        None \<Rightarrow> []
      | Some None \<Rightarrow> []
      | Some (Some line) \<Rightarrow>
          (if line \<noteq> [] \<and> last line = newline then butlast line else line) @ ''.monitor'')"

text \<open>The code after the loop: final recognition, the WAV file, and the level 0.\<close>

definition finish_session ::
  "('m, 'r) vosk \<Rightarrow> string \<Rightarrow> ('m, 'r) AudioRecorder \<Rightarrow> bool outcome \<times> ('m, 'r) AudioRecorder"
  where
  "finish_session v outputFilename s =
     (let (err, s1) =
            (case rec s of
               None \<Rightarrow> (None, s)
             | Some r \<Rightarrow>
                 (let (finalResult, r1) = vosk_recognizer_final_result v r;
                      s0 = s\<lparr>rec := Some r1, calls := calls s @ [FinalResult]\<rparr>
                  in case extractTextFromJson finalResult of
                       Inl e \<Rightarrow> (Some e, s0)
                     | Inr text \<Rightarrow>
                         (None, if text \<noteq> [] then writeRecognizedText text s0 else s0)))
      in case err of
           Some e \<Rightarrow> (Threw e, s1)
         | None \<Rightarrow>
             (let s2 = (if audioData s1 \<noteq> [] then saveWAVFile outputFilename s1 else s1)
              in (Returned True, writeAudioLevel 0 s2)))"

text \<open>\<open>AudioRecorder::record\<close> (\<open>record\<close> is a keyword of Isabelle).\<close>

definition record_session ::
  "('m, 'r) vosk \<Rightarrow> environment \<Rightarrow> int \<Rightarrow> ('m, 'r) AudioRecorder
     \<Rightarrow> bool outcome \<times> ('m, 'r) AudioRecorder" where
  "record_session v env mode s =
     (let monitor = getSystemAudioMonitor env
      in if mode \<noteq> 1 \<and> mode \<noteq> 2 then (Returned False, s)
         else if mode = 2 \<and> monitor = [] then (Returned False, s)
         else if \<not> popen_ok env then (Returned False, s)
         else (let outputFilename =
                     (if mode = 1 then ''mikrofon_'' else ''sistem_sesi_'') @ timestamp env @ ''.wav'';
                   l0 = \<lparr>buffer = uninitialised env, totalBytes = 0, updateCounter = 0,
                         chunkBuffer = []\<rparr>
               in case capture_loop v (source env) l0 s of
                    (Returned u, l, s1) \<Rightarrow> finish_session v outputFilename s1
                  | (Killed, l, s1) \<Rightarrow> (Killed, s1)
                  | (Threw e, l, s1) \<Rightarrow> (Threw e, s1)))"

text \<open>
  \<open>main\<close>, started with the file system \<open>f\<close>: the result is the exit code, unless the
  process is terminated before it returns one.
\<close>

definition main ::
  "('m, 'r) vosk \<Rightarrow> environment \<Rightarrow> filesystem \<Rightarrow> int outcome \<times> ('m, 'r) AudioRecorder" where
  "main v env f =
     (let (enabled, s1) = initialize v (new_AudioRecorder f)
      in case record_session v env (choice env) s1 of
           (Returned ok, s2) \<Rightarrow> (Returned (if ok then 0 else 1), s2)
         | (Killed, s2) \<Rightarrow> (Killed, s2)
         | (Threw e, s2) \<Rightarrow> (Threw e, s2))"

section \<open>Notions used to state the properties\<close>

text \<open>
  A write is acceptable for the level file if it goes to another file or writes the
  decimal text of an integer from 0 to 10 as one line. \<open>extends_ok f f'\<close> says that \<open>f'\<close>
  has the history of \<open>f\<close> followed by acceptable writes only.
\<close>

definition level_write_ok :: "string \<times> file_data \<Rightarrow> bool" where
  "level_write_ok w \<longleftrightarrow>
     (fst w = AUDIO_LEVEL_FILE \<longrightarrow> (\<exists>n. 0 \<le> n \<and> n \<le> 10 \<and> snd w = Text (to_string n @ [newline])))"

definition extends_ok :: "filesystem \<Rightarrow> filesystem \<Rightarrow> bool" where
  "extends_ok f f' \<longleftrightarrow> (\<exists>ws. writes f' = writes f @ ws \<and> (\<forall>w\<in>set ws. level_write_ok w))"

text \<open>The samples that the reads of a list of iterations hold, read by read.\<close>

definition samples_of_reads :: "(bool \<times> byte list) list \<Rightarrow> int16 list" where
  "samples_of_reads inputs = concat (map (\<lambda>io. samples_of_bytes (take 320 (snd io))) inputs)"


text \<open>
  Stand-ins for the Vosk library: one whose model never loads, and one whose recognizer
  counts the chunks it has accepted, reports a partial result for each, and completes a
  segment with the text \<open>hello\<close> on every second chunk.
\<close>

definition vosk_unavailable :: "(unit, nat) vosk" where
  "vosk_unavailable =
     \<lparr>vosk_model_new = (\<lambda>path. None),
      vosk_recognizer_new = (\<lambda>m. None),
      vosk_recognizer_partial_result = (\<lambda>r. ([], r)),
      vosk_recognizer_accept_waveform = (\<lambda>r chunk. (0, r)),
      vosk_recognizer_result = (\<lambda>r. ([], r)),
      vosk_recognizer_final_result = (\<lambda>r. ([], r))\<rparr>"

definition vosk_stub :: "(unit, nat) vosk" where
  "vosk_stub =
     \<lparr>vosk_model_new = (\<lambda>path. Some ()),
      vosk_recognizer_new = (\<lambda>m. Some 0),
      vosk_recognizer_partial_result =
        (\<lambda>r. (''{'' @ dquote # ''partial'' @ dquote # '' : '' @ dquote # ''he'' @ dquote # ''}'', r)),
      vosk_recognizer_accept_waveform = (\<lambda>r chunk. (if odd r then 1 else 0, Suc r)),
      vosk_recognizer_result =
        (\<lambda>r. (''{'' @ text_key @ '' : '' @ dquote # ''hello'' @ dquote # ''}'', r)),
      vosk_recognizer_final_result =
        (\<lambda>r. (''{'' @ text_key @ '' : '' @ dquote # dquote # ''}'', r))\<rparr>"

text \<open>
  What a run of the loop over \<open>inputs\<close> from \<open>(l, s)\<close> to \<open>(l', s')\<close> keeps: the
  samples of the reads of some initial part of the input have been appended to the Sample
  Buffer and to \<open>chunkBuffer\<close>, the byte counter has grown by two for each of them, the
  history of writes has been extended by acceptable writes, and the other members are as
  they were; the loop does not end in an exception.
\<close>

definition loop_inv ::
  "(bool \<times> byte list) list \<Rightarrow> loop_vars \<Rightarrow> ('m, 'r) AudioRecorder \<Rightarrow> unit outcome
     \<Rightarrow> loop_vars \<Rightarrow> ('m, 'r) AudioRecorder \<Rightarrow> bool" where
  "loop_inv inputs l s out l' s' \<longleftrightarrow>
     (\<exists>k\<le>length inputs.
        audioData s' = audioData s @ samples_of_reads (take k inputs)
        \<and> chunkBuffer l' = chunkBuffer l @ samples_of_reads (take k inputs)
        \<and> totalBytes l' = totalBytes l + 2 * length (samples_of_reads (take k inputs)))
     \<and> extends_ok (fs s) (fs s')
     \<and> (rec s' = None) = (rec s = None)
     \<and> handlers_installed s' = handlers_installed s
     \<and> running s' = running s
     \<and> (\<forall>e. out \<noteq> Threw e)"


text \<open>
  A recording environment with two reads, of four and of three bytes, and a file system
  that holds the text and the level of an earlier session.
\<close>

definition example_env :: environment where
  "example_env =
     \<lparr>choice = 1, timestamp = ''20240101_120000'', pactl_output = None, popen_ok = True,
      uninitialised = replicate 320 0,
      source = [(False, [0, 64, 0, 64]), (False, [0, 64, 7])]\<rparr>"

definition stale_fs :: filesystem where
  "stale_fs =
     \<lparr>contents = (\<lambda>name. if name = OUTPUT_TEXT_FILE then Some (Text (''old words'' @ [newline]))
                          else if name = AUDIO_LEVEL_FILE then Some (Text (''7'' @ [newline]))
                          else None),
      writable = (\<lambda>name. True), writes = []\<rparr>"

text \<open>A stand-in for Vosk whose model loads and whose recognizer cannot be created.\<close>

definition vosk_no_recognizer :: "(unit, nat) vosk" where
  "vosk_no_recognizer = vosk_stub\<lparr>vosk_recognizer_new := (\<lambda>m. None)\<rparr>"

section \<open>Properties of string search\<close>

lemma find_prefix_range:
  "find_prefix pat cs i = Some p \<Longrightarrow> i \<le> p \<and> p + length pat \<le> i + length cs"
proof (induction cs arbitrary: i)
  case Nil
  then show ?case by (simp split: if_splits)
next
  case (Cons c cs)
  show ?case
  proof (cases "take (length pat) (c # cs) = pat")
    case True
    then have "length (take (length pat) (c # cs)) = length pat"
      by (rule arg_cong)
    then have "length pat \<le> length (c # cs)"
      by (simp add: min_def split: if_splits)
    with True Cons.prems show ?thesis by simp
  next
    case False
    with Cons.prems have "find_prefix pat cs (Suc i) = Some p" by simp
    from Cons.IH [OF this] show ?thesis by simp
  qed
qed

lemma str_find_range:
  "str_find s pat pos = Some p \<Longrightarrow> pos \<le> p \<and> p + length pat \<le> length s"
  unfolding str_find_def
  by (auto split: if_splits dest!: find_prefix_range)


lemma occurs_at_Cons_0:
  "occurs_at pat (c # cs) 0 \<longleftrightarrow> take (length pat) (c # cs) = pat"
proof
  assume h: "take (length pat) (c # cs) = pat"
  then have "length (take (length pat) (c # cs)) = length pat"
    by (rule arg_cong)
  then have "length pat \<le> length (c # cs)"
    by (simp add: min_def split: if_splits)
  with h show "occurs_at pat (c # cs) 0"
    by (simp add: occurs_at_def)
qed (simp add: occurs_at_def)

lemma occurs_at_Cons_Suc:
  "occurs_at pat (c # cs) (Suc q) \<longleftrightarrow> occurs_at pat cs q"
  by (simp add: occurs_at_def)

lemma occurs_at_Nil:
  "occurs_at pat [] q \<longleftrightarrow> pat = [] \<and> q = 0"
  by (auto simp: occurs_at_def add.commute)

lemma find_prefix_Some_iff:
  "find_prefix pat cs i = Some p \<longleftrightarrow>
     i \<le> p \<and> occurs_at pat cs (p - i) \<and> (\<forall>q < p - i. \<not> occurs_at pat cs q)"
proof (induction cs arbitrary: i)
  case Nil
  show ?case by (auto simp: occurs_at_Nil)
next
  case (Cons c cs)
  show ?case
  proof (cases "take (length pat) (c # cs) = pat")
    case True
    then have o: "occurs_at pat (c # cs) 0"
      by (simp add: occurs_at_Cons_0)
    have "(i \<le> p \<and> occurs_at pat (c # cs) (p - i) \<and> (\<forall>q < p - i. \<not> occurs_at pat (c # cs) q))
            \<longleftrightarrow> p = i"
      using o by (cases "p - i") auto
    with True show ?thesis by auto
  next
    case False
    then have no: "\<not> occurs_at pat (c # cs) 0"
      by (simp add: occurs_at_Cons_0)
    have "(Suc i \<le> p \<and> occurs_at pat cs (p - Suc i) \<and> (\<forall>q < p - Suc i. \<not> occurs_at pat cs q))
            \<longleftrightarrow> (i \<le> p \<and> occurs_at pat (c # cs) (p - i) \<and> (\<forall>q < p - i. \<not> occurs_at pat (c # cs) q))"
      (is "?L \<longleftrightarrow> ?R")
    proof
      assume l: ?L
      then have e: "p - i = Suc (p - Suc i)" by arith
      have "\<not> occurs_at pat (c # cs) q" if "q < p - i" for q
      proof (cases q)
        case 0
        with no show ?thesis by simp
      next
        case (Suc q')
        with that e have "q' < p - Suc i" by simp
        with l Suc show ?thesis by (simp add: occurs_at_Cons_Suc)
      qed
      with l e show ?R by (simp add: occurs_at_Cons_Suc)
    next
      assume r: ?R
      with no have "p - i \<noteq> 0" by auto
      then have e: "p - i = Suc (p - Suc i)" and le: "Suc i \<le> p" by arith+
      have "\<not> occurs_at pat cs q" if "q < p - Suc i" for q
      proof -
        from that e have "Suc q < p - i" by simp
        with r have "\<not> occurs_at pat (c # cs) (Suc q)" by blast
        then show ?thesis by (simp add: occurs_at_Cons_Suc)
      qed
      with r e le show ?L by (simp add: occurs_at_Cons_Suc)
    qed
    with False Cons.IH [of "Suc i"] show ?thesis by simp
  qed
qed

lemma occurs_at_drop:
  "pos \<le> length s \<Longrightarrow> occurs_at pat (drop pos s) q \<longleftrightarrow> occurs_at pat s (pos + q)"
  by (auto simp: occurs_at_def add.commute)

lemma str_find_Some_iff:
  "str_find s pat pos = Some p \<longleftrightarrow>
     pos \<le> p \<and> occurs_at pat s p \<and> (\<forall>q. pos \<le> q \<and> q < p \<longrightarrow> \<not> occurs_at pat s q)"
proof (cases "length s < pos")
  case True
  then show ?thesis by (auto simp: str_find_def occurs_at_def)
next
  case False
  then have le: "pos \<le> length s" by simp
  have "(\<forall>q < p - pos. \<not> occurs_at pat s (pos + q)) \<longleftrightarrow>
        (\<forall>q. pos \<le> q \<and> q < p \<longrightarrow> \<not> occurs_at pat s q)" if "pos \<le> p"
  proof
    assume a: "\<forall>q < p - pos. \<not> occurs_at pat s (pos + q)"
    show "\<forall>q. pos \<le> q \<and> q < p \<longrightarrow> \<not> occurs_at pat s q"
    proof (intro allI impI)
      fix q assume "pos \<le> q \<and> q < p"
      then have "q - pos < p - pos" and "pos + (q - pos) = q" by arith+
      with a show "\<not> occurs_at pat s q" by metis
    qed
  next
    assume a: "\<forall>q. pos \<le> q \<and> q < p \<longrightarrow> \<not> occurs_at pat s q"
    show "\<forall>q < p - pos. \<not> occurs_at pat s (pos + q)"
      using a by auto
  qed
  with le show ?thesis
    by (auto simp: str_find_def find_prefix_Some_iff occurs_at_drop)
qed

lemma find_prefix_None_iff:
  "find_prefix pat cs i = None \<longleftrightarrow> (\<forall>q. \<not> occurs_at pat cs q)"
proof (induction cs arbitrary: i)
  case Nil
  show ?case by (auto simp: occurs_at_Nil)
next
  case (Cons c cs)
  show ?case
  proof (cases "take (length pat) (c # cs) = pat")
    case True
    then have "occurs_at pat (c # cs) 0" by (simp add: occurs_at_Cons_0)
    with True show ?thesis by auto
  next
    case False
    then have no: "\<not> occurs_at pat (c # cs) 0" by (simp add: occurs_at_Cons_0)
    have "(\<forall>q. \<not> occurs_at pat cs q) \<longleftrightarrow> (\<forall>q. \<not> occurs_at pat (c # cs) q)"
    proof
      assume a: "\<forall>q. \<not> occurs_at pat cs q"
      show "\<forall>q. \<not> occurs_at pat (c # cs) q"
      proof
        fix q show "\<not> occurs_at pat (c # cs) q"
          using a no by (cases q) (simp_all add: occurs_at_Cons_Suc)
      qed
    next
      assume a: "\<forall>q. \<not> occurs_at pat (c # cs) q"
      show "\<forall>q. \<not> occurs_at pat cs q"
      proof
        fix q from a have "\<not> occurs_at pat (c # cs) (Suc q)" by blast
        then show "\<not> occurs_at pat cs q" by (simp add: occurs_at_Cons_Suc)
      qed
    qed
    with False Cons.IH [of "Suc i"] show ?thesis by simp
  qed
qed

lemma str_find_None_iff:
  "str_find s pat pos = None \<longleftrightarrow> (\<forall>q. pos \<le> q \<longrightarrow> \<not> occurs_at pat s q)"
proof (cases "length s < pos")
  case True
  then show ?thesis by (auto simp: str_find_def occurs_at_def)
next
  case False
  then have le: "pos \<le> length s" by simp
  have "(\<forall>q. \<not> occurs_at pat s (pos + q)) \<longleftrightarrow> (\<forall>q. pos \<le> q \<longrightarrow> \<not> occurs_at pat s q)"
  proof
    assume a: "\<forall>q. \<not> occurs_at pat s (pos + q)"
    show "\<forall>q. pos \<le> q \<longrightarrow> \<not> occurs_at pat s q"
    proof (intro allI impI)
      fix q assume "pos \<le> q"
      then have "pos + (q - pos) = q" by simp
      with a show "\<not> occurs_at pat s q" by metis
    qed
  qed auto
  with le show ?thesis
    by (simp add: str_find_def find_prefix_None_iff occurs_at_drop)
qed


lemma find_prefix_char:
  "c \<notin> set ys \<Longrightarrow> find_prefix [c] (ys @ c # zs) i = Some (i + length ys)"
  by (induction ys arbitrary: i) auto

lemma str_find_char:
  assumes "c \<notin> set ys"
  shows "str_find (xs @ ys @ c # zs) [c] (length xs) = Some (length xs + length ys)"
  using find_prefix_char [OF assms] by (simp add: str_find_def)

section \<open>Properties of the Result Extractor\<close>

lemma extractTextFromJson_total: "\<exists>t. extractTextFromJson s = Inr t"
proof -
  have "\<exists>t. substr s (sq + 1) n = Inr t" if "str_find s [dquote] cp = Some sq" for sq cp n
    using str_find_range [OF that] by (simp add: substr_def)
  then show ?thesis
    unfolding extractTextFromJson_def by (auto split: option.splits)
qed

lemma extractTextFromJson_no_key:
  "str_find s text_key 0 = None \<Longrightarrow> extractTextFromJson s = Inr []"
  by (simp add: extractTextFromJson_def)

lemma extractTextFromJson_no_colon:
  "str_find s text_key 0 = Some tp \<Longrightarrow> str_find s '':'' tp = None \<Longrightarrow>
   extractTextFromJson s = Inr []"
  by (simp add: extractTextFromJson_def)

lemma extractTextFromJson_no_open:
  "str_find s text_key 0 = Some tp \<Longrightarrow> str_find s '':'' tp = Some cp \<Longrightarrow>
   str_find s [dquote] cp = None \<Longrightarrow> extractTextFromJson s = Inr []"
  by (simp add: extractTextFromJson_def)

lemma extractTextFromJson_no_close:
  "str_find s text_key 0 = Some tp \<Longrightarrow> str_find s '':'' tp = Some cp \<Longrightarrow>
   str_find s [dquote] cp = Some sq \<Longrightarrow> str_find s [dquote] (sq + 1) = None \<Longrightarrow>
   extractTextFromJson s = Inr []"
  by (simp add: extractTextFromJson_def)

lemma extractTextFromJson_value:
  assumes key: "str_find (pre @ text_key @ a @ '':'' @ b @ dquote # v @ dquote # post) text_key 0
                  = Some (length pre)"
    and a: "CHR '':'' \<notin> set a" and b: "dquote \<notin> set b" and v: "dquote \<notin> set v"
  shows "extractTextFromJson (pre @ text_key @ a @ '':'' @ b @ dquote # v @ dquote # post) = Inr v"
proof -
  let ?s = "pre @ text_key @ a @ '':'' @ b @ dquote # v @ dquote # post"
  have "CHR '':'' \<notin> set (text_key @ a)"
    using a by (simp add: text_key_def dquote_def)
  from str_find_char [OF this, of pre "b @ dquote # v @ dquote # post"]
  have colon: "str_find ?s '':'' (length pre) = Some (length pre + length text_key + length a)"
    by (simp add: add.assoc)
  have "dquote \<notin> set ('':'' @ b)"
    using b by (simp add: dquote_def)
  from str_find_char [OF this, of "pre @ text_key @ a" "v @ dquote # post"]
  have open_q: "str_find ?s [dquote] (length pre + length text_key + length a)
                  = Some (length pre + length text_key + length a + 1 + length b)"
    by (simp add: add.assoc)
  from str_find_char [OF v, of "pre @ text_key @ a @ '':'' @ b @ [dquote]" post]
  have close_q: "str_find ?s [dquote] (length pre + length text_key + length a + 1 + length b + 1)
                  = Some (length pre + length text_key + length a + 1 + length b + 1 + length v)"
    by (simp add: add.assoc)
  have "substr ?s (length pre + length text_key + length a + 1 + length b + 1) (length v) = Inr v"
    by (simp add: substr_def)
  with key colon open_q close_q show ?thesis
    by (simp add: extractTextFromJson_def add.assoc)
qed

lemma extractTextFromJson_between:
  assumes "str_find s text_key 0 = Some tp" and "str_find s '':'' tp = Some cp"
    and sq: "str_find s [dquote] cp = Some sq" and "str_find s [dquote] (sq + 1) = Some eq"
  shows "extractTextFromJson s = Inr (take (eq - sq - 1) (drop (sq + 1) s))"
proof -
  from str_find_range [OF sq] have "\<not> length s < sq + 1" by simp
  with assms show ?thesis
    by (simp add: extractTextFromJson_def substr_def)
qed

lemma str_find_Some_first: "str_find s pat pos = Some p \<longleftrightarrow> first_from pat s pos p"
  by (simp add: str_find_Some_iff first_from_def)

lemma str_find_None_absent: "str_find s pat pos = None \<longleftrightarrow> absent_from pat s pos"
  by (simp add: str_find_None_iff absent_from_def)


text \<open>
  Claim C5, amended. The Result Extractor never raises: on every payload it returns a
  string. It looks for the first occurrence of \<open>"text"\<close> (quotes included), then for the
  first colon from there on, then for the first double quote from that colon on, then for
  the next double quote; when one of the four is missing the result is empty, and
  otherwise it is the characters between the two double quotes. Hence the result is the
  value of the key when the first occurrence of \<open>"text"\<close> is the key, followed (after
  characters other than a colon) by a colon and (after characters other than a double
  quote) by a quoted value that holds no double quote: in particular a payload
  containing \<open>"text": "hello world"\<close> at the first occurrence of \<open>"text"\<close> yields
  \<open>hello world\<close>. The empty payload, the payload \<open>""\<close> and the payload \<open>"text":\<close> yield the
  empty string.
\<close>

theorem extractTextFromJson_contract:
  "(\<exists>t. extractTextFromJson s = Inr t)
   \<and> (absent_from text_key s 0 \<longrightarrow> extractTextFromJson s = Inr [])
   \<and> (\<forall>tp. first_from text_key s 0 tp \<and> absent_from '':'' s tp
          \<longrightarrow> extractTextFromJson s = Inr [])
   \<and> (\<forall>tp cp. first_from text_key s 0 tp \<and> first_from '':'' s tp cp
          \<and> absent_from [dquote] s cp
          \<longrightarrow> extractTextFromJson s = Inr [])
   \<and> (\<forall>tp cp sq. first_from text_key s 0 tp \<and> first_from '':'' s tp cp
          \<and> first_from [dquote] s cp sq \<and> absent_from [dquote] s (sq + 1)
          \<longrightarrow> extractTextFromJson s = Inr [])
   \<and> (\<forall>tp cp sq eq. first_from text_key s 0 tp \<and> first_from '':'' s tp cp
          \<and> first_from [dquote] s cp sq \<and> first_from [dquote] s (sq + 1) eq
          \<longrightarrow> extractTextFromJson s = Inr (take (eq - sq - 1) (drop (sq + 1) s)))
   \<and> (first_from text_key (pre @ text_key @ a @ '':'' @ b @ dquote # v @ dquote # post) 0
          (length pre)
        \<and> CHR '':'' \<notin> set a \<and> dquote \<notin> set b \<and> dquote \<notin> set v
          \<longrightarrow> extractTextFromJson (pre @ text_key @ a @ '':'' @ b @ dquote # v @ dquote # post)
                = Inr v)
   \<and> (first_from text_key
          (pre @ text_key @ '':'' @ '' '' @ dquote # ''hello world'' @ dquote # post) 0 (length pre)
          \<longrightarrow> extractTextFromJson
                (pre @ text_key @ '':'' @ '' '' @ dquote # ''hello world'' @ dquote # post)
                = Inr ''hello world'')
   \<and> extractTextFromJson [] = Inr []
   \<and> extractTextFromJson [dquote, dquote] = Inr []
   \<and> extractTextFromJson (text_key @ '':'') = Inr []"
proof -
  have hello: "extractTextFromJson
                 (pre @ text_key @ '':'' @ '' '' @ dquote # ''hello world'' @ dquote # post)
               = Inr ''hello world''"
    if "first_from text_key
          (pre @ text_key @ '':'' @ '' '' @ dquote # ''hello world'' @ dquote # post) 0 (length pre)"
  proof -
    have "dquote \<notin> set '' ''" and "dquote \<notin> set ''hello world''" and "CHR '':'' \<notin> set []"
      by (simp_all add: dquote_def)
    from extractTextFromJson_value [of pre "[]" "'' ''" "''hello world''" post, OF _ this(3,1,2)]
      that
    show ?thesis by (simp add: str_find_Some_first)
  qed
  have e1: "extractTextFromJson [] = Inr []"
    by (simp add: extractTextFromJson_def str_find_def text_key_def)
  have e2: "extractTextFromJson [dquote, dquote] = Inr []"
    by (simp add: extractTextFromJson_def str_find_def text_key_def dquote_def)
  have e3: "extractTextFromJson (text_key @ '':'') = Inr []"
    by (simp add: extractTextFromJson_def str_find_def text_key_def dquote_def)
  have c1: "\<exists>t. extractTextFromJson s = Inr t"
    by (rule extractTextFromJson_total)
  have c2: "absent_from text_key s 0 \<longrightarrow> extractTextFromJson s = Inr []"
    by (simp flip: str_find_None_absent add: extractTextFromJson_no_key)
  have c3: "\<forall>tp. first_from text_key s 0 tp \<and> absent_from '':'' s tp
          \<longrightarrow> extractTextFromJson s = Inr []"
    using extractTextFromJson_no_colon [of s]
    by (auto simp flip: str_find_None_absent str_find_Some_first)
  have c4: "\<forall>tp cp. first_from text_key s 0 tp \<and> first_from '':'' s tp cp
          \<and> absent_from [dquote] s cp
          \<longrightarrow> extractTextFromJson s = Inr []"
    using extractTextFromJson_no_open [of s]
    by (auto simp flip: str_find_None_absent str_find_Some_first)
  have c5: "\<forall>tp cp sq. first_from text_key s 0 tp \<and> first_from '':'' s tp cp
          \<and> first_from [dquote] s cp sq \<and> absent_from [dquote] s (sq + 1)
          \<longrightarrow> extractTextFromJson s = Inr []"
    using extractTextFromJson_no_close [of s]
    by (auto simp flip: str_find_None_absent str_find_Some_first)
  have c5': "\<forall>tp cp sq eq. first_from text_key s 0 tp \<and> first_from '':'' s tp cp
          \<and> first_from [dquote] s cp sq \<and> first_from [dquote] s (sq + 1) eq
          \<longrightarrow> extractTextFromJson s = Inr (take (eq - sq - 1) (drop (sq + 1) s))"
    using extractTextFromJson_between [of s]
    by (auto simp flip: str_find_Some_first)
  have c6: "first_from text_key (pre @ text_key @ a @ '':'' @ b @ dquote # v @ dquote # post) 0
          (length pre)
        \<and> CHR '':'' \<notin> set a \<and> dquote \<notin> set b \<and> dquote \<notin> set v
          \<longrightarrow> extractTextFromJson (pre @ text_key @ a @ '':'' @ b @ dquote # v @ dquote # post)
                = Inr v"
    using extractTextFromJson_value [of pre a b v post]
    by (simp add: str_find_Some_first)
  have c7: "first_from text_key
          (pre @ text_key @ '':'' @ '' '' @ dquote # ''hello world'' @ dquote # post) 0 (length pre)
          \<longrightarrow> extractTextFromJson
                (pre @ text_key @ '':'' @ '' '' @ dquote # ''hello world'' @ dquote # post)
                = Inr ''hello world''"
    using hello by blast
  show ?thesis
    by (rule conjI c1 c2 c3 c4 c5 c5' c6 c7 e1 e2 e3)+
qed


theorem extractTextFromJson_contract_witness:
  "absent_from text_key (''{'' @ dquote # ''partial'' @ dquote # '' : '' @ dquote # ''hel'' @ dquote # ''}'') 0
   \<and> extractTextFromJson (''{'' @ dquote # ''partial'' @ dquote # '' : '' @ dquote # ''hel'' @ dquote # ''}'')
       = Inr []
   \<and> first_from text_key (text_key @ '' abc'') 0 0 \<and> absent_from '':'' (text_key @ '' abc'') 0
   \<and> extractTextFromJson (text_key @ '' abc'') = Inr []
   \<and> first_from text_key (text_key @ '': 5'') 0 0 \<and> first_from '':'' (text_key @ '': 5'') 0 6
   \<and> absent_from [dquote] (text_key @ '': 5'') 6
   \<and> extractTextFromJson (text_key @ '': 5'') = Inr []
   \<and> first_from text_key (text_key @ '':'' @ dquote # ''abc'') 0 0
   \<and> first_from '':'' (text_key @ '':'' @ dquote # ''abc'') 0 6
   \<and> first_from [dquote] (text_key @ '':'' @ dquote # ''abc'') 6 7
   \<and> absent_from [dquote] (text_key @ '':'' @ dquote # ''abc'') (7 + 1)
   \<and> extractTextFromJson (text_key @ '':'' @ dquote # ''abc'') = Inr []
   \<and> first_from text_key (text_key @ '':1,'' @ dquote # ''n'' @ dquote # '':2'') 0 0
   \<and> first_from '':'' (text_key @ '':1,'' @ dquote # ''n'' @ dquote # '':2'') 0 6
   \<and> first_from [dquote] (text_key @ '':1,'' @ dquote # ''n'' @ dquote # '':2'') 6 9
   \<and> first_from [dquote] (text_key @ '':1,'' @ dquote # ''n'' @ dquote # '':2'') (9 + 1) 11
   \<and> extractTextFromJson (text_key @ '':1,'' @ dquote # ''n'' @ dquote # '':2'') = Inr ''n''
   \<and> first_from text_key (''{'' @ text_key @ '' '' @ '':'' @ '' '' @ dquote # ''yes'' @ dquote # ''}'') 0
        (length ''{'')
   \<and> CHR '':'' \<notin> set '' '' \<and> dquote \<notin> set '' '' \<and> dquote \<notin> set ''yes''
   \<and> extractTextFromJson (''{'' @ text_key @ '' '' @ '':'' @ '' '' @ dquote # ''yes'' @ dquote # ''}'')
       = Inr ''yes''
   \<and> first_from text_key
        (''{'' @ text_key @ '':'' @ '' '' @ dquote # ''hello world'' @ dquote # ''}'') 0 (length ''{'')
   \<and> extractTextFromJson
        (''{'' @ text_key @ '':'' @ '' '' @ dquote # ''hello world'' @ dquote # ''}'')
       = Inr ''hello world''"
proof -
  let ?s2 = "''{'' @ dquote # ''partial'' @ dquote # '' : '' @ dquote # ''hel'' @ dquote # ''}''"
  let ?s3 = "text_key @ '' abc''"
  let ?s4 = "text_key @ '': 5''"
  let ?s5 = "text_key @ '':'' @ dquote # ''abc''"
  have h2: "absent_from text_key ?s2 0"
    by (simp flip: str_find_None_absent add: str_find_def text_key_def dquote_def)
  have h3: "first_from text_key ?s3 0 0" "absent_from '':'' ?s3 0"
    by (simp_all flip: str_find_None_absent str_find_Some_first
        add: str_find_def text_key_def dquote_def)
  have h4: "first_from text_key ?s4 0 0" "first_from '':'' ?s4 0 6" "absent_from [dquote] ?s4 6"
    by (simp_all flip: str_find_None_absent str_find_Some_first
        add: str_find_def text_key_def dquote_def)
  have h5: "first_from text_key ?s5 0 0" "first_from '':'' ?s5 0 6"
    "first_from [dquote] ?s5 6 7" "absent_from [dquote] ?s5 (7 + 1)"
    by (simp_all flip: str_find_None_absent str_find_Some_first
        add: str_find_def text_key_def dquote_def)
  let ?s8 = "text_key @ '':1,'' @ dquote # ''n'' @ dquote # '':2''"
  have h8: "first_from text_key ?s8 0 0" "first_from '':'' ?s8 0 6"
    "first_from [dquote] ?s8 6 9" "first_from [dquote] ?s8 (9 + 1) 11"
    by (simp_all flip: str_find_None_absent str_find_Some_first
        add: str_find_def text_key_def dquote_def)
  from extractTextFromJson_contract [where s = ?s8] h8
  have "extractTextFromJson ?s8 = Inr (take (11 - 9 - 1) (drop (9 + 1) ?s8))" by blast
  then have r8: "extractTextFromJson ?s8 = Inr ''n''"
    by (simp add: text_key_def)
  have h6: "first_from text_key
      (''{'' @ text_key @ '' '' @ '':'' @ '' '' @ dquote # ''yes'' @ dquote # ''}'') 0 (length ''{'')"
    "CHR '':'' \<notin> set '' ''" "dquote \<notin> set '' ''" "dquote \<notin> set ''yes''"
    by (simp_all flip: str_find_None_absent str_find_Some_first
        add: str_find_def text_key_def dquote_def)
  have h7: "first_from text_key
      (''{'' @ text_key @ '':'' @ '' '' @ dquote # ''hello world'' @ dquote # ''}'') 0 (length ''{'')"
    by (simp_all flip: str_find_None_absent str_find_Some_first
        add: str_find_def text_key_def dquote_def)
  from extractTextFromJson_contract [where s = ?s2] h2
  have r2: "extractTextFromJson ?s2 = Inr []" by blast
  from extractTextFromJson_contract [where s = ?s3] h3
  have r3: "extractTextFromJson ?s3 = Inr []" by blast
  from extractTextFromJson_contract [where s = ?s4] h4
  have r4: "extractTextFromJson ?s4 = Inr []" by blast
  from extractTextFromJson_contract [where s = ?s5] h5
  have r5: "extractTextFromJson ?s5 = Inr []" by blast
  from extractTextFromJson_contract
    [where pre = "''{''" and a = "'' ''" and b = "'' ''" and v = "''yes''" and post = "''}''"] h6
  have r6: "extractTextFromJson
      (''{'' @ text_key @ '' '' @ '':'' @ '' '' @ dquote # ''yes'' @ dquote # ''}'') = Inr ''yes''"
    by blast
  from extractTextFromJson_contract [where pre = "''{''" and post = "''}''"] h7
  have r7: "extractTextFromJson
      (''{'' @ text_key @ '':'' @ '' '' @ dquote # ''hello world'' @ dquote # ''}'')
       = Inr ''hello world''"
    by blast
  show ?thesis
    by (rule conjI h2 h3 h4 h5 h6 h7 h8 r2 r3 r4 r5 r6 r7 r8)+
qed

text \<open>
  The claim as stated fails on payloads of other shapes. In \<open>{"text": 5, "k": "v"}\<close> the
  value of the key is the number 5 and the result is \<open>k\<close>, the next key. In
  \<open>{"a": "text", "b": "c", "text": "hello world"}\<close> the value of the key is \<open>hello world\<close>
  and the result is \<open>c\<close>, because \<open>"text"\<close> occurs first as a value. In
  \<open>{"text": "say \"hi\""}\<close> the value holds escaped quotes and the result stops at the
  first of them. None of the three results is the value of the key or empty.
\<close>

theorem extractTextFromJson_other_string_counterexample:
  "extractTextFromJson
     (''{'' @ text_key @ '': 5, '' @ dquote # ''k'' @ dquote # '': '' @ dquote # ''v'' @ dquote # ''}'')
     = Inr ''k''
   \<and> extractTextFromJson
     (''{'' @ dquote # ''a'' @ dquote # '': '' @ text_key @ '', '' @ dquote # ''b'' @ dquote # '': ''
        @ dquote # ''c'' @ dquote # '', '' @ text_key @ '': '' @ dquote # ''hello world'' @ dquote # ''}'')
     = Inr ''c''
   \<and> extractTextFromJson
     (''{'' @ text_key @ '': '' @ dquote # ''say '' @ [CHR 0x5C, dquote] @ ''hi''
        @ [CHR 0x5C, dquote] @ dquote # ''}'')
     = Inr (''say '' @ [CHR 0x5C])"
  by (simp add: extractTextFromJson_def str_find_def text_key_def dquote_def substr_def)

section \<open>Properties of rounding\<close>

lemma rne_of_int [simp]: "rne (of_int m) = m"
  by (simp add: rne_def)

lemma rne_floor_le: "\<lfloor>y\<rfloor> \<le> rne y"
  by (simp add: rne_def Let_def)

lemma rne_le_floor: "rne y \<le> \<lfloor>y\<rfloor> + 1"
  by (simp add: rne_def Let_def)

lemma rne_mono: "a \<le> b \<Longrightarrow> rne a \<le> rne b"
proof -
  assume ab: "a \<le> b"
  then have "\<lfloor>a\<rfloor> \<le> \<lfloor>b\<rfloor>" by (rule floor_mono)
  then consider "\<lfloor>a\<rfloor> < \<lfloor>b\<rfloor>" | "\<lfloor>a\<rfloor> = \<lfloor>b\<rfloor>" by linarith
  then show ?thesis
  proof cases
    case 1
    with rne_le_floor [of a] rne_floor_le [of b] show ?thesis by linarith
  next
    case 2
    with ab show ?thesis by (auto simp: rne_def Let_def)
  qed
qed

lemma rne_near: "\<bar>y - of_int m\<bar> < 1 / 2 \<Longrightarrow> rne y = m"
proof -
  assume "\<bar>y - of_int m\<bar> < 1 / 2"
  then have lo: "of_int m - 1 / 2 < y" and hi: "y < of_int m + 1 / 2"
    by linarith+
  then have "\<lfloor>y\<rfloor> = m \<or> \<lfloor>y\<rfloor> = m - 1"
    by (auto simp: floor_eq_iff)
  then show ?thesis
  proof
    assume "\<lfloor>y\<rfloor> = m" with lo hi show ?thesis by (simp add: rne_def Let_def)
  next
    assume f: "\<lfloor>y\<rfloor> = m - 1"
    from lo have "1 / 2 < y - of_int (m - 1)" by simp
    with f show ?thesis by (simp add: rne_def Let_def)
  qed
qed

lemma exponent_bounds:
  assumes "0 < x"
  shows "2 powi (exponent x) \<le> x \<and> x < 2 powi (exponent x + 1)"
proof -
  obtain p q where pq: "quotient_of x = (p, q)" by (cases "quotient_of x")
  from quotient_of_denom_pos [OF pq] have q: "0 < q" .
  from quotient_of_div [OF pq] have x: "x = of_int p / of_int q" .
  with assms q have p: "0 < p" by (simp add: zero_less_divide_iff)
  define bp bq where "bp = floorlog 2 (nat p)" and "bq = floorlog 2 (nat q)"
  from floorlog_bounds [of "nat p" 2] p
  have bp: "2 ^ (bp - 1) \<le> nat p" "nat p < 2 ^ bp" by (simp_all add: bp_def)
  from floorlog_bounds [of "nat q" 2] q
  have bq: "2 ^ (bq - 1) \<le> nat q" "nat q < 2 ^ bq" by (simp_all add: bq_def)
  have bp0: "0 < bp" using p by (simp add: bp_def floorlog_def)
  have bq0: "0 < bq" using q by (simp add: bq_def floorlog_def)
  have "of_nat (2 ^ (bp - 1)) \<le> (of_nat (nat p) :: rat)" using bp(1) by (rule of_nat_mono)
  then have P1: "(2::rat) ^ (bp - 1) \<le> of_int p" using p by simp
  have "(of_nat (nat p) :: rat) < of_nat (2 ^ bp)" using bp(2) by (simp only: of_nat_less_iff)
  then have P2: "of_int p < (2::rat) ^ bp" using p by simp
  have "of_nat (2 ^ (bq - 1)) \<le> (of_nat (nat q) :: rat)" using bq(1) by (rule of_nat_mono)
  then have Q1: "(2::rat) ^ (bq - 1) \<le> of_int q" using q by simp
  have "(of_nat (nat q) :: rat) < of_nat (2 ^ bq)" using bq(2) by (simp only: of_nat_less_iff)
  then have Q2: "of_int q < (2::rat) ^ bq" using q by simp
  have qpos: "(0::rat) < of_int q" using q by simp
  have up: "x < 2 powi (int bp - int bq + 1)"
  proof -
    have "x * of_int q = of_int p" using x q by simp
    also have "\<dots> < 2 ^ bp" by (rule P2)
    also have "\<dots> = 2 powi (int bp - int bq + 1) * 2 ^ (bq - 1)"
    proof -
      have "(2::rat) ^ (bq - 1) = 2 powi (int bq - 1)"
        using bq0 by (simp add: power_int_def nat_diff_distrib')
      then show ?thesis
        by (simp add: power_int_add [symmetric])
    qed
    also have "\<dots> \<le> 2 powi (int bp - int bq + 1) * of_int q"
      using Q1 by (simp add: mult_left_mono)
    finally show ?thesis using qpos by simp
  qed
  have low: "2 powi (int bp - int bq - 1) \<le> x"
  proof -
    have "(2::rat) powi (int bp - int bq - 1) * of_int q \<le> 2 powi (int bp - int bq - 1) * 2 ^ bq"
      using Q2 by (intro mult_left_mono) simp_all
    also have "\<dots> = 2 powi (int bp - 1)"
      by (simp add: power_int_add [symmetric] flip: power_int_of_nat)
    also have "\<dots> = 2 ^ (bp - 1)"
      using bp0 by (simp add: power_int_def nat_diff_distrib')
    also have "\<dots> \<le> of_int p" by (rule P1)
    also have "\<dots> = x * of_int q" using x q by simp
    finally show ?thesis using qpos by simp
  qed
  show ?thesis
  proof (cases "2 powi (int bp - int bq) \<le> x")
    case True
    then have "exponent x = int bp - int bq"
      by (simp add: exponent_def pq bp_def bq_def)
    with True up show ?thesis by simp
  next
    case False
    then have "exponent x = int bp - int bq - 1"
      by (simp add: exponent_def pq bp_def bq_def)
    with False low show ?thesis by simp
  qed
qed

lemma powi_shift: "(2::rat) powi e = 2 ^ n * 2 powi (e - int n)"
  using power_int_add [of "2::rat" "int n" "e - int n"] by simp

lemma exponent_unique:
  assumes "0 < x" and lo: "2 powi e \<le> x" and hi: "x < 2 powi (e + 1)"
  shows "exponent x = e"
proof -
  note b = exponent_bounds [OF assms(1)]
  have "exponent x < e + 1"
  proof (rule ccontr)
    assume "\<not> exponent x < e + 1"
    then have "(2::rat) powi (e + 1) \<le> 2 powi exponent x"
      by (intro power_int_increasing) simp_all
    with b hi show False by linarith
  qed
  moreover have "e < exponent x + 1"
  proof (rule ccontr)
    assume "\<not> e < exponent x + 1"
    then have "(2::rat) powi (exponent x + 1) \<le> 2 powi e"
      by (intro power_int_increasing) simp_all
    with b lo show False by linarith
  qed
  ultimately show ?thesis by simp
qed

lemma exponent_mono:
  assumes "0 < x" and "x \<le> y"
  shows "exponent x \<le> exponent y"
proof (rule ccontr)
  assume "\<not> exponent x \<le> exponent y"
  then have "(2::rat) powi (exponent y + 1) \<le> 2 powi exponent x"
    by (intro power_int_increasing) simp_all
  moreover from assms have "0 < y" by simp
  ultimately show False
    using exponent_bounds [OF assms(1)] exponent_bounds [OF \<open>0 < y\<close>] assms(2) by linarith
qed

lemma fl_pos:
  "0 < x \<Longrightarrow> fl x = of_int (rne (x / 2 powi (exponent x - 52))) * 2 powi (exponent x - 52)"
  by (simp add: fl_def Let_def)

lemma scaled_bounds:
  assumes "0 < x"
  shows "2 ^ 52 \<le> x / 2 powi (exponent x - 52)" and "x / 2 powi (exponent x - 52) < 2 ^ 53"
proof -
  have u: "(0::rat) < 2 powi (exponent x - 52)" by simp
  have e1: "(2::rat) powi exponent x = 2 ^ 52 * 2 powi (exponent x - 52)"
    using powi_shift [of "exponent x" 52] by simp
  have e2: "(2::rat) powi (exponent x + 1) = 2 ^ 53 * 2 powi (exponent x - 52)"
    using powi_shift [of "exponent x + 1" 53] by simp
  from exponent_bounds [OF assms] e1 e2
  have "2 ^ 52 * 2 powi (exponent x - 52) \<le> x" and "x < 2 ^ 53 * 2 powi (exponent x - 52)"
    by simp_all
  then show "2 ^ 52 \<le> x / 2 powi (exponent x - 52)" and "x / 2 powi (exponent x - 52) < 2 ^ 53"
    using u by (simp_all add: pos_le_divide_eq pos_divide_less_eq)
qed

lemma fl_bounds:
  assumes "0 < x"
  shows "2 powi exponent x \<le> fl x" and "fl x \<le> 2 powi (exponent x + 1)"
proof -
  let ?u = "(2::rat) powi (exponent x - 52)"
  have u: "0 < ?u" by simp
  have e1: "(2::rat) powi exponent x = 2 ^ 52 * ?u"
    using powi_shift [of "exponent x" 52] by simp
  have e2: "(2::rat) powi (exponent x + 1) = 2 ^ 53 * ?u"
    using powi_shift [of "exponent x + 1" 53] by simp
  from scaled_bounds(1) [OF assms] have "rne (of_int (2 ^ 52)) \<le> rne (x / ?u)"
    by (intro rne_mono) simp
  then have "(2::int) ^ 52 \<le> rne (x / ?u)" by (simp only: rne_of_int)
  then have "(of_int (2 ^ 52) :: rat) \<le> of_int (rne (x / ?u))" by (simp only: of_int_le_iff)
  then have "2 ^ 52 * ?u \<le> of_int (rne (x / ?u)) * ?u"
    using u by (intro mult_right_mono) simp_all
  then show "2 powi exponent x \<le> fl x"
    by (simp only: e1 fl_pos [OF assms])
  from scaled_bounds(2) [OF assms] have "rne (x / ?u) \<le> rne (of_int (2 ^ 53))"
    by (intro rne_mono) simp
  then have "rne (x / ?u) \<le> (2::int) ^ 53" by (simp only: rne_of_int)
  then have "(of_int (rne (x / ?u)) :: rat) \<le> of_int (2 ^ 53)" by (simp only: of_int_le_iff)
  then have "of_int (rne (x / ?u)) * ?u \<le> 2 ^ 53 * ?u"
    using u by (intro mult_right_mono) simp_all
  then show "fl x \<le> 2 powi (exponent x + 1)"
    by (simp only: e2 fl_pos [OF assms])
qed

lemma fl_0 [simp]: "fl 0 = 0"
  by (simp add: fl_def)

lemma fl_nonneg: "0 \<le> x \<Longrightarrow> 0 \<le> fl x"
proof (cases "x = 0")
  case False
  assume "0 \<le> x"
  with False have "0 < x" by simp
  from fl_bounds(1) [OF this] have "(2::rat) powi exponent x \<le> fl x" .
  moreover have "(0::rat) < 2 powi exponent x" by simp
  ultimately show ?thesis by linarith
qed simp

lemma fl_mono:
  assumes "0 \<le> x" and "x \<le> y"
  shows "fl x \<le> fl y"
proof (cases "x = 0")
  case True
  with assms fl_nonneg [of y] show ?thesis by simp
next
  case False
  with assms have x: "0 < x" and y: "0 < y" by simp_all
  from exponent_mono [OF x assms(2)]
  consider "exponent x = exponent y" | "exponent x + 1 \<le> exponent y" by linarith
  then show ?thesis
  proof cases
    case 1
    let ?u = "(2::rat) powi (exponent y - 52)"
    have u: "0 < ?u" by simp
    with assms(2) have "x / ?u \<le> y / ?u" by (simp add: divide_right_mono)
    then have "rne (x / ?u) \<le> rne (y / ?u)" by (rule rne_mono)
    then have "(of_int (rne (x / ?u)) :: rat) \<le> of_int (rne (y / ?u))" by simp
    then have "of_int (rne (x / ?u)) * ?u \<le> of_int (rne (y / ?u)) * ?u"
      using u by (intro mult_right_mono) simp_all
    then show ?thesis by (simp add: fl_pos [OF x] fl_pos [OF y] 1)
  next
    case 2
    then have "(2::rat) powi (exponent x + 1) \<le> 2 powi exponent y"
      by (intro power_int_increasing) simp_all
    with fl_bounds(2) [OF x] fl_bounds(1) [OF y] show ?thesis by linarith
  qed
qed

lemma fl_exact:
  assumes "0 < x" and "x / 2 powi (exponent x - 52) = of_int m"
  shows "fl x = x"
proof -
  have "fl x = of_int m * 2 powi (exponent x - 52)"
    by (simp add: fl_pos [OF assms(1)] assms(2))
  also have "\<dots> = x" using assms(2) by (simp add: field_simps)
  finally show ?thesis .
qed

lemma exponent_scaled:
  assumes "(2::rat) ^ 52 * 2 powi k \<le> x" and "x < 2 ^ 53 * 2 powi k"
  shows "0 < x" and "exponent x = k + 52"
proof -
  have "(0::rat) < 2 ^ 52 * 2 powi k" by simp
  with assms(1) show x: "0 < x" by linarith
  have e1: "(2::rat) powi (k + 52) = 2 ^ 52 * 2 powi k"
    using powi_shift [of "k + 52" 52] by simp
  have e2: "(2::rat) powi (k + 52 + 1) = 2 ^ 53 * 2 powi k"
    using powi_shift [of "k + 52 + 1" 53] by simp
  show "exponent x = k + 52"
    by (rule exponent_unique [OF x]) (simp_all only: e1 e2 assms)
qed

lemma fl_eqI:
  assumes "(2::rat) ^ 52 * 2 powi k \<le> x" and "x < 2 ^ 53 * 2 powi k"
    and "\<bar>x / 2 powi k - of_int m\<bar> < 1 / 2"
  shows "fl x = of_int m * 2 powi k"
  using exponent_scaled [OF assms(1,2)] rne_near [OF assms(3)]
  by (simp add: fl_pos)

lemma fl_repr:
  assumes "2 ^ 52 \<le> m" and "m < 2 ^ 53"
  shows "fl (of_int m * 2 powi k) = of_int m * 2 powi k"
proof (rule fl_eqI)
  from assms(1) have "(of_int (2 ^ 52) :: rat) \<le> of_int m" by (simp only: of_int_le_iff)
  then show "(2::rat) ^ 52 * 2 powi k \<le> of_int m * 2 powi k"
    by (intro mult_right_mono) simp_all
  from assms(2) have "(of_int m :: rat) < of_int (2 ^ 53)" by (simp only: of_int_less_iff)
  then show "(of_int m :: rat) * 2 powi k < 2 ^ 53 * 2 powi k"
    by (intro mult_strict_right_mono) simp_all
  show "\<bar>(of_int m :: rat) * 2 powi k / 2 powi k - of_int m\<bar> < 1 / 2"
    by simp
qed

lemma fl_of_nat:
  assumes "n < 2 ^ 53"
  shows "fl (of_nat n) = of_nat n"
proof (cases "n = 0")
  case False
  then have x: "(0::rat) < of_nat n" by simp
  let ?e = "exponent (of_nat n)"
  have "?e < 53"
  proof (rule ccontr)
    assume "\<not> ?e < 53"
    then have "(2::rat) powi 53 \<le> 2 powi ?e"
      by (intro power_int_increasing) simp_all
    moreover from assms have "(of_nat n :: rat) < of_nat (2 ^ 53)" by (simp only: of_nat_less_iff)
    ultimately show False using exponent_bounds [OF x] by simp
  qed
  then have "(2::rat) powi (?e - 52) = 1 / 2 ^ nat (52 - ?e)"
    using power_int_minus_divide [of "2::rat" "52 - ?e"] by (simp add: power_int_def)
  then have "of_nat n / 2 powi (?e - 52) = (of_int (int n * 2 ^ nat (52 - ?e)) :: rat)"
    by simp
  from fl_exact [OF x this] show ?thesis .
qed simp

lemma double_3276_7: "fl (32767 / 10) = of_int 7205539501467238 * 2 powi (- 41)"
  by (rule fl_eqI) simp_all

lemma double_3276_7_pos: "0 < fl (32767 / 10)"
  unfolding double_3276_7 by simp

lemma lower_generic:
  assumes "0 \<le> x" and "x \<le> a" and "c * d \<le> fl x" and "0 < d" and "fl c = c" and "0 \<le> c"
  shows "c \<le> fl (fl a / d)"
proof -
  from assms(1,2) have "fl x \<le> fl a" by (rule fl_mono)
  with assms(3) have "c * d \<le> fl a" by linarith
  with assms(4) have "c \<le> fl a / d" by (simp add: pos_le_divide_eq)
  with assms(6) have "fl c \<le> fl (fl a / d)" by (rule fl_mono)
  with assms(5) show ?thesis by simp
qed

lemma upper_generic:
  assumes "0 \<le> a" and "a \<le> z" and "fl z = z" and "0 < d" and "z / d \<le> w" and "fl w = w"
    and "w < c"
  shows "fl (fl a / d) < c"
proof -
  from assms(1,2) have "fl a \<le> fl z" by (rule fl_mono)
  with assms(3) have "fl a \<le> z" by simp
  with assms(4) have "fl a / d \<le> z / d" by (simp add: divide_right_mono)
  with assms(5) have le: "fl a / d \<le> w" by linarith
  from assms(1) have "0 \<le> fl a" by (rule fl_nonneg)
  with assms(4) have "0 \<le> fl a / d" by simp
  from this le have "fl (fl a / d) \<le> fl w" by (rule fl_mono)
  with assms(6,7) show ?thesis by linarith
qed
lemma threshold_values:
  "fl (of_int (32767 * 1) / 10) = of_int 7205539501467238 * 2 powi (- 41)"
  "fl (of_int (32767 * 2) / 10) = of_int 7205539501467238 * 2 powi (- 40)"
  "fl (of_int (32767 * 3) / 10) = of_int 5404154626100429 * 2 powi (- 39)"
  "fl (of_int (32767 * 4) / 10) = of_int 7205539501467238 * 2 powi (- 39)"
  "fl (of_int (32767 * 5) / 10) = of_int 9006924376834048 * 2 powi (- 39)"
  "fl (of_int (32767 * 6) / 10) = of_int 5404154626100429 * 2 powi (- 38)"
  "fl (of_int (32767 * 7) / 10) = of_int 6304847063783834 * 2 powi (- 38)"
  "fl (of_int (32767 * 8) / 10) = of_int 7205539501467238 * 2 powi (- 38)"
  "fl (of_int (32767 * 9) / 10) = of_int 8106231939150643 * 2 powi (- 38)"
  "fl (of_int (32767 * 10) / 10) = of_int 9006924376834048 * 2 powi (- 38)"
  by (rule fl_eqI; simp)+

lemma below_values:
  "fl (of_int 7205539501336166 * 2 powi (- 41)) = of_int 7205539501336166 * 2 powi (- 41)"
  "fl (of_int 7205539501401702 * 2 powi (- 40)) = of_int 7205539501401702 * 2 powi (- 40)"
  "fl (of_int 5404154626067660 * 2 powi (- 39)) = of_int 5404154626067660 * 2 powi (- 39)"
  "fl (of_int 7205539501434470 * 2 powi (- 39)) = of_int 7205539501434470 * 2 powi (- 39)"
  "fl (of_int 9006924376801280 * 2 powi (- 39)) = of_int 9006924376801280 * 2 powi (- 39)"
  "fl (of_int 5404154626084044 * 2 powi (- 38)) = of_int 5404154626084044 * 2 powi (- 38)"
  "fl (of_int 6304847063767449 * 2 powi (- 38)) = of_int 6304847063767449 * 2 powi (- 38)"
  "fl (of_int 7205539501450854 * 2 powi (- 38)) = of_int 7205539501450854 * 2 powi (- 38)"
  "fl (of_int 8106231939134259 * 2 powi (- 38)) = of_int 8106231939134259 * 2 powi (- 38)"
  "fl (of_int 9006924376817664 * 2 powi (- 38)) = of_int 9006924376817664 * 2 powi (- 38)"
  by (rule fl_repr; simp)+

lemma margin_values:
  "fl (of_int 9007199254732800 * 2 powi (- 53)) = of_int 9007199254732800 * 2 powi (- 53)"
  "fl (of_int 9007199254736896 * 2 powi (- 52)) = of_int 9007199254736896 * 2 powi (- 52)"
  "fl (of_int 6755399441053696 * 2 powi (- 51)) = of_int 6755399441053696 * 2 powi (- 51)"
  "fl (of_int 9007199254738944 * 2 powi (- 51)) = of_int 9007199254738944 * 2 powi (- 51)"
  "fl (of_int 5629499534212096 * 2 powi (- 50)) = of_int 5629499534212096 * 2 powi (- 50)"
  "fl (of_int 6755399441054720 * 2 powi (- 50)) = of_int 6755399441054720 * 2 powi (- 50)"
  "fl (of_int 7881299347897344 * 2 powi (- 50)) = of_int 7881299347897344 * 2 powi (- 50)"
  "fl (of_int 9007199254739968 * 2 powi (- 50)) = of_int 9007199254739968 * 2 powi (- 50)"
  "fl (of_int 5066549580791296 * 2 powi (- 49)) = of_int 5066549580791296 * 2 powi (- 49)"
  "fl (of_int 5629499534212608 * 2 powi (- 49)) = of_int 5629499534212608 * 2 powi (- 49)"
  by (rule fl_repr; simp)+

lemma fl_small_int:
  assumes "0 \<le> k" and "k < 2 ^ 53"
  shows "fl (of_int k) = of_int k"
proof -
  from assms have "nat k < 2 ^ 53" by (simp add: nat_less_iff)
  from fl_of_nat [OF this] assms(1) show ?thesis by simp
qed

lemma threshold_cases:
  assumes "k \<in> {1..10}"
  shows "k = 1 \<or> k = 2 \<or> k = 3 \<or> k = 4 \<or> k = 5 \<or> k = 6 \<or> k = 7 \<or> k = 8 \<or> k = 9
         \<or> k = (10::int)"
  using assms by (simp only: atLeastAtMost_iff) arith

lemma threshold_lower:
  assumes "k \<in> {1..10}" and "of_int (32767 * k) / 10 \<le> a"
  shows "of_int k \<le> fl (fl a / fl (32767 / 10))"
proof -
  from assms(1) have k: "0 \<le> k" "k < 2 ^ 53" by simp_all
  then have x0: "(0::rat) \<le> of_int (32767 * k) / 10" by simp
  have key: "of_int k * fl (32767 / 10) \<le> fl (of_int (32767 * k) / 10)"
    using threshold_cases [OF assms(1)]
    by (elim disjE; hypsubst; unfold threshold_values double_3276_7; simp)
  from k have k0: "(0::rat) \<le> of_int k" by simp
  show ?thesis
    by (rule lower_generic [OF x0 assms(2) key double_3276_7_pos fl_small_int [OF k] k0])
qed


lemma threshold_upper:
  assumes "k \<in> {1..10}" and "0 \<le> a" and "a \<le> of_int (32767 * k) / 10 - 1 / 655350"
  shows "fl (fl a / fl (32767 / 10)) < of_int k"
proof -
  have "\<exists>z w. of_int (32767 * k) / 10 - 1 / 655350 \<le> z \<and> fl z = z
          \<and> z / fl (32767 / 10) \<le> w \<and> fl w = w \<and> w < of_int k"
    using threshold_cases [OF assms(1)]
  proof (elim disjE)
    assume k: "k = 1"
    show ?thesis
      unfolding k
      by (rule exI [of _ "of_int 7205539501336166 * 2 powi (- 41)"], rule exI [of _ "of_int 9007199254732800 * 2 powi (- 53)"],
          (intro conjI; (rule below_values | rule margin_values | simp add: double_3276_7)))
  next
    assume k: "k = 2"
    show ?thesis
      unfolding k
      by (rule exI [of _ "of_int 7205539501401702 * 2 powi (- 40)"], rule exI [of _ "of_int 9007199254736896 * 2 powi (- 52)"],
          (intro conjI; (rule below_values | rule margin_values | simp add: double_3276_7)))
  next
    assume k: "k = 3"
    show ?thesis
      unfolding k
      by (rule exI [of _ "of_int 5404154626067660 * 2 powi (- 39)"], rule exI [of _ "of_int 6755399441053696 * 2 powi (- 51)"],
          (intro conjI; (rule below_values | rule margin_values | simp add: double_3276_7)))
  next
    assume k: "k = 4"
    show ?thesis
      unfolding k
      by (rule exI [of _ "of_int 7205539501434470 * 2 powi (- 39)"], rule exI [of _ "of_int 9007199254738944 * 2 powi (- 51)"],
          (intro conjI; (rule below_values | rule margin_values | simp add: double_3276_7)))
  next
    assume k: "k = 5"
    show ?thesis
      unfolding k
      by (rule exI [of _ "of_int 9006924376801280 * 2 powi (- 39)"], rule exI [of _ "of_int 5629499534212096 * 2 powi (- 50)"],
          (intro conjI; (rule below_values | rule margin_values | simp add: double_3276_7)))
  next
    assume k: "k = 6"
    show ?thesis
      unfolding k
      by (rule exI [of _ "of_int 5404154626084044 * 2 powi (- 38)"], rule exI [of _ "of_int 6755399441054720 * 2 powi (- 50)"],
          (intro conjI; (rule below_values | rule margin_values | simp add: double_3276_7)))
  next
    assume k: "k = 7"
    show ?thesis
      unfolding k
      by (rule exI [of _ "of_int 6304847063767449 * 2 powi (- 38)"], rule exI [of _ "of_int 7881299347897344 * 2 powi (- 50)"],
          (intro conjI; (rule below_values | rule margin_values | simp add: double_3276_7)))
  next
    assume k: "k = 8"
    show ?thesis
      unfolding k
      by (rule exI [of _ "of_int 7205539501450854 * 2 powi (- 38)"], rule exI [of _ "of_int 9007199254739968 * 2 powi (- 50)"],
          (intro conjI; (rule below_values | rule margin_values | simp add: double_3276_7)))
  next
    assume k: "k = 9"
    show ?thesis
      unfolding k
      by (rule exI [of _ "of_int 8106231939134259 * 2 powi (- 38)"], rule exI [of _ "of_int 5066549580791296 * 2 powi (- 49)"],
          (intro conjI; (rule below_values | rule margin_values | simp add: double_3276_7)))
  next
    assume k: "k = 10"
    show ?thesis
      unfolding k
      by (rule exI [of _ "of_int 9006924376817664 * 2 powi (- 38)"], rule exI [of _ "of_int 5629499534212608 * 2 powi (- 49)"],
          (intro conjI; (rule below_values | rule margin_values | simp add: double_3276_7)))
  qed
  then obtain z w where zw: "of_int (32767 * k) / 10 - 1 / 655350 \<le> z" "fl z = z"
    "z / fl (32767 / 10) \<le> w" "fl w = w" "w < of_int k" by blast
  from assms(3) zw(1) have "a \<le> z" by linarith
  from upper_generic [OF assms(2) this zw(2) double_3276_7_pos zw(3,4,5)] show ?thesis .
qed

section \<open>Properties of the Loudness Estimator\<close>

lemma level_threshold:
  assumes k: "k \<in> {1..10}" and N: "0 < N" "N < 65536" and S: "0 \<le> S"
  shows "of_int k \<le> fl (fl (of_int S / of_nat N) / fl (32767 / 10))
         \<longleftrightarrow> 32767 * k * int N \<le> 10 * S"
proof
  assume "32767 * k * int N \<le> 10 * S"
  then have "(of_int (32767 * k * int N) :: rat) \<le> of_int (10 * S)"
    by (simp only: of_int_le_iff)
  then have "(of_int (32767 * k) :: rat) * of_nat N \<le> 10 * of_int S"
    by simp
  with N(1) have "(of_int (32767 * k) / 10 :: rat) \<le> of_int S / of_nat N"
    by (simp add: field_simps)
  from threshold_lower [OF k this]
  show "of_int k \<le> fl (fl (of_int S / of_nat N) / fl (32767 / 10))" .
next
  assume le: "of_int k \<le> fl (fl (of_int S / of_nat N) / fl (32767 / 10))"
  show "32767 * k * int N \<le> 10 * S"
  proof (rule ccontr)
    assume "\<not> 32767 * k * int N \<le> 10 * S"
    then have "10 * S + 1 \<le> 32767 * k * int N" by simp
    then have "(of_int (10 * S + 1) :: rat) \<le> of_int (32767 * k * int N)"
      by (simp only: of_int_le_iff)
    then have a: "10 * (of_int S :: rat) + 1 \<le> of_int (32767 * k) * of_nat N"
      by simp
    have n: "(0::rat) < of_nat N" using N(1) by simp
    from a n have b: "(of_int S / of_nat N :: rat) \<le> of_int (32767 * k) / 10 - 1 / (10 * of_nat N)"
      by (simp add: field_simps)
    from N(2) have "(of_nat N :: rat) \<le> of_nat 65535" by (simp only: of_nat_le_iff)
    then have "(10 * of_nat N :: rat) \<le> 655350" by simp
    with n have "1 / 655350 \<le> 1 / (10 * of_nat N :: rat)"
      by (intro divide_left_mono) simp_all
    with b have c: "(of_int S / of_nat N :: rat) \<le> of_int (32767 * k) / 10 - 1 / 655350"
      by linarith
    from S n have "(0::rat) \<le> of_int S / of_nat N" by simp
    from threshold_upper [OF k this c] le show False by linarith
  qed
qed

lemma min_by_thresholds:
  fixes a b :: int
  assumes "0 \<le> a" and "0 \<le> b" and "\<forall>k\<in>{1..10}. k \<le> a \<longleftrightarrow> k \<le> b"
  shows "min 10 a = min 10 b"
proof -
  have t: "k \<le> a \<longleftrightarrow> k \<le> b" if "1 \<le> k" "k \<le> 10" for k
    using assms(3) that by simp
  show ?thesis
  proof (cases "10 \<le> a")
    case True
    with t [of 10] show ?thesis by simp
  next
    case False
    then have a10: "a < 10" by simp
    from t [of "a + 1"] a10 assms(1) have "b \<le> a" by simp
    moreover have "a \<le> b"
    proof (cases "a = 0")
      case True with assms(2) show ?thesis by simp
    next
      case False
      with assms(1) a10 t [of a] show ?thesis by simp
    qed
    ultimately show ?thesis by simp
  qed
qed

lemma abs_sint16_le: "\<bar>sint (x :: int16)\<bar> \<le> 32768"
  using sint_ge [of x] sint_lt [of x] by simp

lemma sum_list_abs_bounds:
  "0 \<le> (\<Sum>x\<leftarrow>xs. \<bar>sint (x :: int16)\<bar>) \<and> (\<Sum>x\<leftarrow>xs. \<bar>sint x\<bar>) \<le> 32768 * int (length xs)"
proof (induction xs)
  case (Cons x xs)
  with abs_sint16_le [of x] show ?case by simp
qed simp

lemma sum_abs_exact:
  "0 \<le> acc \<Longrightarrow> acc + 32768 * int (length xs) < 2 ^ 31 \<Longrightarrow>
   sum_abs acc xs = acc + (\<Sum>x\<leftarrow>xs. \<bar>sint x\<bar>)"
proof (induction xs arbitrary: acc)
  case Nil
  then show ?case by simp
next
  case (Cons x xs)
  let ?a = "acc + \<bar>sint x\<bar>"
  from Cons.prems abs_sint16_le [of x] have r: "0 \<le> ?a" "?a + 32768 * int (length xs) < 2 ^ 31"
    by simp_all
  then have "?a < 2 ^ 31" by linarith
  with r(1) have w: "wrap32 ?a = ?a"
    unfolding wrap32_def by (intro signed_take_bit_int_eq_self) simp_all
  from Cons.IH [OF r] w show ?case by simp
qed

lemma trunc_int_nonneg: "0 \<le> x \<Longrightarrow> trunc_int x = \<lfloor>x\<rfloor>"
  by (simp add: trunc_int_def)

lemma calculateAudioLevel_exact:
  assumes "length samples < 65536"
  shows "calculateAudioLevel samples = level_spec samples"
proof (cases "samples = []")
  case True
  then show ?thesis by (simp add: calculateAudioLevel_def level_spec_def)
next
  case False
  define N where "N = length samples"
  define S where "S = (\<Sum>x\<leftarrow>samples. \<bar>sint x\<bar>)"
  from False assms have N: "0 < N" "N < 65536" by (simp_all add: N_def)
  from sum_list_abs_bounds [of samples] have S: "0 \<le> S" "S \<le> 32768 * int N"
    by (simp_all add: S_def N_def)
  from S(2) N(2) have "0 + 32768 * int (length samples) < 2 ^ 31" by (simp add: N_def)
  from sum_abs_exact [OF _ this] have sum: "sum_abs 0 samples = S" by (simp add: S_def)
  from N(2) have "N < 2 ^ 53" by simp
  from fl_of_nat [OF this] have flN: "fl (of_nat N) = of_nat N" .
  define y where "y = fl (fl (of_int S / of_nat N) / fl (32767 / 10))"
  define q where "q = (of_int S / of_nat N :: rat) / (32767 / 10)"
  have avg0: "(0::rat) \<le> of_int S / of_nat N" using S(1) by simp
  then have "0 \<le> fl (of_int S / of_nat N)" by (rule fl_nonneg)
  then have "0 \<le> fl (of_int S / of_nat N) / fl (32767 / 10)"
    using double_3276_7_pos by simp
  then have y0: "0 \<le> y" unfolding y_def by (rule fl_nonneg)
  from avg0 have q0: "0 \<le> q" by (simp add: q_def)
  have n: "(0::rat) < of_nat N" using N(1) by simp
  have th: "k \<le> \<lfloor>y\<rfloor> \<longleftrightarrow> k \<le> \<lfloor>q\<rfloor>" if "k \<in> {1..10}" for k
  proof -
    have "k \<le> \<lfloor>y\<rfloor> \<longleftrightarrow> of_int k \<le> y" by (simp add: le_floor_iff)
    also have "\<dots> \<longleftrightarrow> 32767 * k * int N \<le> 10 * S"
      unfolding y_def by (rule level_threshold [OF that N S(1)])
    also have "\<dots> \<longleftrightarrow> (of_int (32767 * k * int N) :: rat) \<le> of_int (10 * S)"
      by (simp only: of_int_le_iff)
    also have "\<dots> \<longleftrightarrow> of_int k \<le> q"
      using n by (simp add: q_def field_simps)
    also have "\<dots> \<longleftrightarrow> k \<le> \<lfloor>q\<rfloor>" by (simp add: le_floor_iff)
    finally show ?thesis .
  qed
  have "min 10 \<lfloor>y\<rfloor> = min 10 \<lfloor>q\<rfloor>"
    by (rule min_by_thresholds) (use y0 q0 th in simp_all)
  moreover have "calculateAudioLevel samples = min 10 \<lfloor>y\<rfloor>"
  proof -
    have Nz: "(N = 0) = False" using N(1) by simp
    have "calculateAudioLevel samples = (if trunc_int y > 10 then 10 else trunc_int y)"
      by (simp only: calculateAudioLevel_def Let_def sum N_def [symmetric] flN y_def [symmetric]
          Nz if_False)
    also have "\<dots> = min 10 (trunc_int y)"
      by (simp add: min_def)
    also have "trunc_int y = \<lfloor>y\<rfloor>"
      using y0 by (rule trunc_int_nonneg)
    finally show ?thesis .
  qed
  moreover have "level_spec samples = min 10 \<lfloor>q\<rfloor>"
    using False trunc_int_nonneg [OF q0]
    by (simp add: level_spec_def mean_magnitude_def q_def S_def N_def)
  ultimately show ?thesis by simp
qed

lemma mean_magnitude_nonneg: "0 \<le> mean_magnitude samples"
  using sum_list_abs_bounds [of samples] by (simp add: mean_magnitude_def)

lemma level_spec_range: "0 \<le> level_spec samples \<and> level_spec samples \<le> 10"
  using mean_magnitude_nonneg [of samples]
  by (simp add: level_spec_def trunc_int_nonneg)

lemma calculateAudioLevel_range:
  "length samples < 65536 \<Longrightarrow>
   0 \<le> calculateAudioLevel samples \<and> calculateAudioLevel samples \<le> 10"
  using level_spec_range [of samples] by (simp add: calculateAudioLevel_exact)

lemma level_spec_mono:
  assumes "xs \<noteq> []" and "ys \<noteq> []" and "mean_magnitude xs \<le> mean_magnitude ys"
  shows "level_spec xs \<le> level_spec ys"
proof -
  from assms(3) have "mean_magnitude xs / (32767 / 10) \<le> mean_magnitude ys / (32767 / 10)"
    by (simp add: divide_right_mono)
  then have "\<lfloor>mean_magnitude xs / (32767 / 10)\<rfloor> \<le> \<lfloor>mean_magnitude ys / (32767 / 10)\<rfloor>"
    by (rule floor_mono)
  then show ?thesis
    using assms(1,2) mean_magnitude_nonneg [of xs] mean_magnitude_nonneg [of ys]
    by (simp add: level_spec_def trunc_int_nonneg min_le_iff_disj)
qed

lemma sum_list_all_zero:
  "\<forall>x\<in>set xs. x = 0 \<Longrightarrow> (\<Sum>x\<leftarrow>xs. \<bar>sint (x :: int16)\<bar>) = 0"
  by (induction xs) simp_all

lemma sum_list_all_max:
  "\<forall>x\<in>set xs. 32767 \<le> \<bar>sint (x :: int16)\<bar> \<Longrightarrow> 32767 * int (length xs) \<le> (\<Sum>x\<leftarrow>xs. \<bar>sint x\<bar>)"
  by (induction xs) (simp_all add: algebra_simps)

lemma level_spec_zero: "\<forall>x\<in>set xs. x = 0 \<Longrightarrow> level_spec xs = 0"
  by (simp add: level_spec_def mean_magnitude_def sum_list_all_zero trunc_int_def)

lemma level_spec_max:
  assumes "xs \<noteq> []" and "\<forall>x\<in>set xs. 32767 \<le> \<bar>sint (x :: int16)\<bar>"
  shows "level_spec xs = 10"
proof -
  from assms(1) have n: "(0::rat) < of_nat (length xs)" by simp
  from sum_list_all_max [OF assms(2)]
  have "(of_int (32767 * int (length xs)) :: rat) \<le> of_int (\<Sum>x\<leftarrow>xs. \<bar>sint x\<bar>)"
    by (simp only: of_int_le_iff)
  with n have "32767 \<le> mean_magnitude xs"
    by (simp add: mean_magnitude_def pos_le_divide_eq)
  then have "10 \<le> mean_magnitude xs / (32767 / 10)" by simp
  then have "10 \<le> \<lfloor>mean_magnitude xs / (32767 / 10)\<rfloor>" by (simp add: le_floor_iff)
  with assms(1) mean_magnitude_nonneg [of xs] show ?thesis
    by (simp add: level_spec_def trunc_int_nonneg)
qed

text \<open>
  Claim C4. For every chunk (at most 160 samples; the statement needs no more than a
  length below 65536, where the 32-bit sum cannot overflow) the Loudness Estimator returns
  an integer between 0 and 10. It returns 0 for the empty chunk, and otherwise exactly the
  arithmetic mean of the absolute sample values divided by \<open>32767 / 10\<close>, truncated
  toward zero and limited to 10: the double-precision computation of the code agrees with
  the exact value on every such chunk. It returns 0 for a chunk of zeros and 10 for a chunk
  whose samples all have the greatest magnitude, and a chunk with a greater mean magnitude
  never gets a smaller level.
\<close>

theorem calculateAudioLevel_contract:
  "(length samples < 65536 \<longrightarrow>
      0 \<le> calculateAudioLevel samples \<and> calculateAudioLevel samples \<le> 10)
   \<and> calculateAudioLevel [] = 0
   \<and> (samples \<noteq> [] \<and> length samples < 65536 \<longrightarrow>
        calculateAudioLevel samples
          = min 10 (trunc_int (mean_magnitude samples / (32767 / 10))))
   \<and> (length samples < 65536 \<and> (\<forall>x\<in>set samples. x = 0) \<longrightarrow>
        calculateAudioLevel samples = 0)
   \<and> (samples \<noteq> [] \<and> length samples < 65536 \<and> (\<forall>x\<in>set samples. 32767 \<le> \<bar>sint x\<bar>) \<longrightarrow>
        calculateAudioLevel samples = 10)
   \<and> (xs \<noteq> [] \<and> ys \<noteq> [] \<and> length xs < 65536 \<and> length ys < 65536
        \<and> mean_magnitude xs \<le> mean_magnitude ys \<longrightarrow>
        calculateAudioLevel xs \<le> calculateAudioLevel ys)"
proof -
  have c1: "length samples < 65536 \<longrightarrow>
      0 \<le> calculateAudioLevel samples \<and> calculateAudioLevel samples \<le> 10"
    using calculateAudioLevel_range by blast
  have c2: "calculateAudioLevel [] = 0"
    by (simp add: calculateAudioLevel_def)
  have c3: "samples \<noteq> [] \<and> length samples < 65536 \<longrightarrow>
        calculateAudioLevel samples
          = min 10 (trunc_int (mean_magnitude samples / (32767 / 10)))"
    by (simp add: calculateAudioLevel_exact level_spec_def)
  have c4: "length samples < 65536 \<and> (\<forall>x\<in>set samples. x = 0) \<longrightarrow>
        calculateAudioLevel samples = 0"
    by (simp add: calculateAudioLevel_exact level_spec_zero)
  have c5: "samples \<noteq> [] \<and> length samples < 65536
        \<and> (\<forall>x\<in>set samples. 32767 \<le> \<bar>sint x\<bar>) \<longrightarrow> calculateAudioLevel samples = 10"
    by (simp add: calculateAudioLevel_exact level_spec_max)
  have c6: "xs \<noteq> [] \<and> ys \<noteq> [] \<and> length xs < 65536 \<and> length ys < 65536
        \<and> mean_magnitude xs \<le> mean_magnitude ys \<longrightarrow>
        calculateAudioLevel xs \<le> calculateAudioLevel ys"
    by (simp add: calculateAudioLevel_exact level_spec_mono)
  show ?thesis
    by (rule conjI c1 c2 c3 c4 c5 c6)+
qed

theorem calculateAudioLevel_contract_witness:
  "length [16384, - 16384 :: int16] < 65536
   \<and> 0 \<le> calculateAudioLevel [16384, - 16384] \<and> calculateAudioLevel [16384, - 16384] \<le> 10
   \<and> [16384, - 16384 :: int16] \<noteq> []
   \<and> calculateAudioLevel [16384, - 16384] = 5
   \<and> length [0, 0, 0 :: int16] < 65536
   \<and> calculateAudioLevel [0, 0, 0] = 0
   \<and> [32767, - 32768 :: int16] \<noteq> [] \<and> length [32767, - 32768 :: int16] < 65536
   \<and> 32767 \<le> \<bar>sint (32767 :: int16)\<bar> \<and> 32767 \<le> \<bar>sint (- 32768 :: int16)\<bar>
   \<and> calculateAudioLevel [32767, - 32768] = 10
   \<and> [100 :: int16] \<noteq> [] \<and> length [100 :: int16] < 65536
   \<and> mean_magnitude [100] \<le> mean_magnitude [16384, - 16384]
   \<and> calculateAudioLevel [100] \<le> calculateAudioLevel [16384, - 16384]"
proof -
  have h1: "length [16384, - 16384 :: int16] < 65536" "[16384, - 16384 :: int16] \<noteq> []"
    by simp_all
  have h2: "length [0, 0, 0 :: int16] < 65536" "\<forall>x\<in>set [0, 0, 0 :: int16]. x = 0"
    by simp_all
  have h3: "[32767, - 32768 :: int16] \<noteq> []" "length [32767, - 32768 :: int16] < 65536"
    "\<forall>x\<in>set [32767, - 32768 :: int16]. 32767 \<le> \<bar>sint x\<bar>"
    by simp_all
  have h3': "32767 \<le> \<bar>sint (32767 :: int16)\<bar>" "32767 \<le> \<bar>sint (- 32768 :: int16)\<bar>"
    by simp_all
  have h4: "[100 :: int16] \<noteq> []" "length [100 :: int16] < 65536"
    "mean_magnitude [100] \<le> mean_magnitude [16384, - 16384]"
    by (simp_all add: mean_magnitude_def)
  have v: "min 10 (trunc_int (mean_magnitude [16384, - 16384] / (32767 / 10))) = 5"
    by (simp add: mean_magnitude_def trunc_int_def floor_eq_iff)
  from calculateAudioLevel_contract [of "[16384, - 16384]"] h1 v
  have r1: "0 \<le> calculateAudioLevel [16384, - 16384]" "calculateAudioLevel [16384, - 16384] \<le> 10"
    "calculateAudioLevel [16384, - 16384] = 5"
    by simp_all
  from calculateAudioLevel_contract [of "[0, 0, 0]"] h2
  have r2: "calculateAudioLevel [0, 0, 0] = 0" by blast
  from calculateAudioLevel_contract [of "[32767, - 32768]"] h3
  have r3: "calculateAudioLevel [32767, - 32768] = 10" by blast
  from calculateAudioLevel_contract [where xs = "[100]" and ys = "[16384, - 16384]"] h1 h4
  have r4: "calculateAudioLevel [100] \<le> calculateAudioLevel [16384, - 16384]" by blast
  show ?thesis
    by (rule conjI h1 h2(1) h3(1,2) h3' h4 r1 r2 r3 r4)+
qed

section \<open>Properties of the State Publisher\<close>

lemma writeToFile_contents:
  "writable f name \<Longrightarrow> contents (writeToFile name c f) name = Some (Text (c @ [newline]))"
  by (simp add: writeToFile_def)

lemma writeToFile_writable [simp]:
  "writable (writeToFile name c f) = writable f"
  by (simp add: writeToFile_def)

lemma writeRecognizedText_empty: "writeRecognizedText [] s = s"
  by (simp add: writeRecognizedText_def)

lemma writeRecognizedText_acc:
  "text \<noteq> [] \<Longrightarrow>
   accumulatedText (writeRecognizedText text s) =
     (if accumulatedText s = [] then text else accumulatedText s @ '' '' @ text)"
  by (simp add: writeRecognizedText_def Let_def)

lemma writeRecognizedText_file:
  "text \<noteq> [] \<Longrightarrow> writable (fs s) OUTPUT_TEXT_FILE \<Longrightarrow>
   contents (fs (writeRecognizedText text s)) OUTPUT_TEXT_FILE =
     Some (Text (accumulatedText (writeRecognizedText text s) @ [newline]))"
  by (simp add: writeRecognizedText_def Let_def writeToFile_contents)

lemma writeRecognizedText_writable:
  "writable (fs (writeRecognizedText text s)) = writable (fs s)"
  by (simp add: writeRecognizedText_def Let_def)

text \<open>
  Claim C6. Publishing an empty final text changes nothing. Publishing a non-empty
  text appends it to the Transcript, after a single space when the Transcript is not
  empty, and (when the text file can be opened) overwrites the text file with the whole
  updated Transcript, written as one line. Publishing \<open>hello\<close> and then \<open>world\<close> from an
  empty Transcript leaves the Transcript, and the file's line, \<open>hello world\<close>.
\<close>

theorem writeRecognizedText_contract:
  "writeRecognizedText [] s = s
   \<and> (text \<noteq> [] \<longrightarrow>
        accumulatedText (writeRecognizedText text s) =
          (if accumulatedText s = [] then text else accumulatedText s @ '' '' @ text))
   \<and> (text \<noteq> [] \<and> writable (fs s) OUTPUT_TEXT_FILE \<longrightarrow>
        contents (fs (writeRecognizedText text s)) OUTPUT_TEXT_FILE =
          Some (Text (accumulatedText (writeRecognizedText text s) @ [newline])))
   \<and> (accumulatedText s = [] \<longrightarrow>
        accumulatedText (writeRecognizedText ''world'' (writeRecognizedText ''hello'' s))
          = ''hello world'')
   \<and> (accumulatedText s = [] \<and> writable (fs s) OUTPUT_TEXT_FILE \<longrightarrow>
        contents (fs (writeRecognizedText ''world'' (writeRecognizedText ''hello'' s)))
          OUTPUT_TEXT_FILE = Some (Text (''hello world'' @ [newline])))"
proof -
  have two: "accumulatedText (writeRecognizedText ''world'' (writeRecognizedText ''hello'' s))
               = ''hello world''" if "accumulatedText s = []"
    using that by (simp add: writeRecognizedText_acc)
  have persisted: "contents (fs (writeRecognizedText ''world'' (writeRecognizedText ''hello'' s)))
                OUTPUT_TEXT_FILE = Some (Text (''hello world'' @ [newline]))"
    if "accumulatedText s = []" and "writable (fs s) OUTPUT_TEXT_FILE"
  proof -
    have "writable (fs (writeRecognizedText ''hello'' s)) OUTPUT_TEXT_FILE"
      using that(2) by (simp add: writeRecognizedText_writable)
    from writeRecognizedText_file [OF _ this, of "''world''"] two [OF that(1)]
    show ?thesis by simp
  qed
  show ?thesis
    using two persisted
    by (simp add: writeRecognizedText_empty writeRecognizedText_acc writeRecognizedText_file)
qed

theorem writeRecognizedText_contract_witness:
  "''hello'' \<noteq> [] \<and> accumulatedText (new_AudioRecorder empty_fs :: (unit, unit) AudioRecorder) = []
   \<and> writable (fs (new_AudioRecorder empty_fs :: (unit, unit) AudioRecorder)) OUTPUT_TEXT_FILE
   \<and> accumulatedText
        (writeRecognizedText ''hello'' (new_AudioRecorder empty_fs :: (unit, unit) AudioRecorder))
       = ''hello''
   \<and> contents (fs (writeRecognizedText ''hello''
        (new_AudioRecorder empty_fs :: (unit, unit) AudioRecorder))) OUTPUT_TEXT_FILE
       = Some (Text (''hello'' @ [newline]))
   \<and> accumulatedText (writeRecognizedText ''world'' (writeRecognizedText ''hello''
        (new_AudioRecorder empty_fs :: (unit, unit) AudioRecorder))) = ''hello world''
   \<and> contents (fs (writeRecognizedText ''world'' (writeRecognizedText ''hello''
        (new_AudioRecorder empty_fs :: (unit, unit) AudioRecorder)))) OUTPUT_TEXT_FILE
       = Some (Text (''hello world'' @ [newline]))"
  using writeRecognizedText_contract
    [of "new_AudioRecorder empty_fs :: (unit, unit) AudioRecorder" "''hello''"]
  by (simp add: new_AudioRecorder_def empty_fs_def)

section \<open>Properties of the WAV Encoder\<close>

lemma from_le16_le16: "from_le16 (ucast w) (ucast (drop_bit 8 w)) = w"
  unfolding from_le16_def
  by (rule bit_word_eqI) (auto simp: bit_simps)

lemma le16_from_le16: "le16 (from_le16 lo hi) = [lo, hi]"
  unfolding from_le16_def le16_def
  apply simp
  apply (rule conjI; rule bit_word_eqI)
   apply (auto simp: bit_simps dest: bit_imp_le_length)
  done

lemma samples_of_bytes_le16: "samples_of_bytes (concat (map le16 xs)) = xs"
  by (induction xs) (simp_all add: le16_def from_le16_le16)

lemma length_concat_le16: "length (concat (map le16 xs)) = 2 * length xs"
  by (induction xs) (simp_all add: le16_def)

lemma unat_drop_bit_div: "unat (drop_bit k w) = unat w div 2 ^ k"
  by (simp add: unat_drop_bit_eq drop_bit_eq_div [where ?'a = nat])

lemma unat_low_byte: "unat (ucast w :: byte) = unat w mod 256"
  by (simp add: unsigned_ucast_eq take_bit_eq_mod)

lemma unat_le32:
  "unat (ucast (w :: 32 word) :: byte) + 256 * unat (ucast (drop_bit 8 w) :: byte)
   + 65536 * unat (ucast (drop_bit 16 w) :: byte)
   + 16777216 * unat (ucast (drop_bit 24 w) :: byte) = unat w"
proof -
  define n a b c where "n = unat w" and "a = n div 256" and "b = a div 256" and "c = b div 256"
  have "unat w < 2 ^ LENGTH(32)" by (rule unsigned_less)
  then have "c < 256" by (simp add: n_def a_def b_def c_def)
  then have c: "c mod 256 = c" by simp
  have b16: "n div 65536 = b" and c24: "n div 16777216 = c"
    by (simp_all add: a_def b_def c_def div_mult2_eq [symmetric])
  have "n = n mod 256 + 256 * a" by (simp add: a_def)
  also have "a = a mod 256 + 256 * b" by (simp add: b_def)
  also have "b = b mod 256 + 256 * c" by (simp add: c_def)
  finally have "n = n mod 256 + 256 * (a mod 256) + 65536 * (b mod 256) + 16777216 * c"
    by simp
  with c b16 c24 show ?thesis
    by (simp add: unat_low_byte unat_drop_bit_div n_def [symmetric] a_def [symmetric])
qed

lemmas wav_unfold =
  wav_bytes_def header_bytes_def wav_header_def Let_def chars_def le32_def le16_def

lemma wav_data_size_field:
  "rd32 (wav_bytes xs) 40 = unat (of_nat (length xs * 2) :: 32 word)"
  by (simp add: wav_unfold rd32_def unat_le32)

lemma wav_riff_size_field:
  "rd32 (wav_bytes xs) 4 = unat (36 + of_nat (length xs * 2) :: 32 word)"
  by (simp add: wav_unfold rd32_def unat_le32)

lemma wav_fmt_fields32:
  "rd32 (wav_bytes xs) 16 = 16 \<and> rd32 (wav_bytes xs) 24 = 16000 \<and> rd32 (wav_bytes xs) 28 = 32000"
  by (simp add: wav_unfold rd32_def)

lemma wav_fmt_fields16:
  "rd16 (wav_bytes xs) 20 = 1 \<and> rd16 (wav_bytes xs) 22 = 1 \<and> rd16 (wav_bytes xs) 32 = 2
   \<and> rd16 (wav_bytes xs) 34 = 16"
  by (simp add: wav_unfold rd16_def)

lemma wav_tags:
  "rd_tag (wav_bytes xs) 0 = chars ''RIFF'' \<and> rd_tag (wav_bytes xs) 8 = chars ''WAVE''
   \<and> rd_tag (wav_bytes xs) 12 = chars ''fmt '' \<and> rd_tag (wav_bytes xs) 36 = chars ''data''"
  by (simp add: wav_unfold rd_tag_def)

lemma length_wav_header: "length (header_bytes (wav_header xs)) = 44"
  by (simp add: header_bytes_def wav_header_def Let_def chars_def le32_def le16_def)

lemma wav_small_sizes:
  assumes "36 + 2 * length xs < (2 :: nat) ^ 32"
  shows "unat (of_nat (length xs * 2) :: 32 word) = 2 * length xs"
    and "unat (36 + of_nat (length xs * 2) :: 32 word) = 36 + 2 * length xs"
proof -
  from assms have "length xs * 2 < 2 ^ LENGTH(32)" by simp
  then show "unat (of_nat (length xs * 2) :: 32 word) = 2 * length xs"
    by (simp only: unat_of_nat mod_less mult.commute)
  from assms have "36 + length xs * 2 < 2 ^ LENGTH(32)" by (simp add: mult.commute)
  then have "unat (of_nat (36 + length xs * 2) :: 32 word) = 36 + 2 * length xs"
    by (simp only: unat_of_nat mod_less mult.commute)
  then show "unat (36 + of_nat (length xs * 2) :: 32 word) = 36 + 2 * length xs"
    by simp
qed

lemma wav_bytes_small:
  assumes "36 + 2 * length xs < (2 :: nat) ^ 32"
  shows "wav_bytes xs = header_bytes (wav_header xs) @ concat (map le16 xs)"
proof -
  have "subchunk2Size (wav_header xs) = of_nat (length xs * 2)"
    by (simp add: wav_header_def Let_def)
  with wav_small_sizes(1) [OF assms] show ?thesis
    by (simp add: wav_bytes_def length_concat_le16)
qed

lemma saveWAVFile_contents:
  "writable (fs s) filename \<Longrightarrow>
   contents (fs (saveWAVFile filename s)) filename = Some (Binary (wav_bytes (audioData s)))"
  by (simp add: saveWAVFile_def write_binary_def)

text \<open>
  Claim C7, amended. For a Sample Buffer of \<open>N\<close> samples with \<open>36 + 2 * N < 2 ^ 32\<close>,
  and an output file that can be created, the file holds 44 header bytes followed by the
  samples' little-endian bytes. The header carries the tags RIFF, WAVE, fmt and data, a
  RIFF chunk size of \<open>36 + 2 * N\<close>, a format chunk of size 16 declaring PCM (1), 1 channel,
  sample rate 16000, byte rate 32000, block align 2 and 16 bits per sample, and a data
  size of \<open>2 * N\<close>; decoding the data section gives back the \<open>N\<close> samples.
\<close>

theorem saveWAVFile_contract:
  assumes "36 + 2 * length (audioData s) < (2 :: nat) ^ 32"
    and "writable (fs s) filename"
  shows "contents (fs (saveWAVFile filename s)) filename = Some (Binary (wav_bytes (audioData s)))
    \<and> length (wav_bytes (audioData s)) = 44 + 2 * length (audioData s)
    \<and> rd_tag (wav_bytes (audioData s)) 0 = chars ''RIFF''
    \<and> rd32 (wav_bytes (audioData s)) 4 = 36 + 2 * length (audioData s)
    \<and> rd_tag (wav_bytes (audioData s)) 8 = chars ''WAVE''
    \<and> rd_tag (wav_bytes (audioData s)) 12 = chars ''fmt ''
    \<and> rd32 (wav_bytes (audioData s)) 16 = 16
    \<and> rd16 (wav_bytes (audioData s)) 20 = 1
    \<and> rd16 (wav_bytes (audioData s)) 22 = 1
    \<and> rd32 (wav_bytes (audioData s)) 24 = 16000
    \<and> rd32 (wav_bytes (audioData s)) 28 = 32000
    \<and> rd16 (wav_bytes (audioData s)) 32 = 2
    \<and> rd16 (wav_bytes (audioData s)) 34 = 16
    \<and> rd_tag (wav_bytes (audioData s)) 36 = chars ''data''
    \<and> rd32 (wav_bytes (audioData s)) 40 = 2 * length (audioData s)
    \<and> drop 44 (wav_bytes (audioData s)) = concat (map le16 (audioData s))
    \<and> samples_of_bytes (drop 44 (wav_bytes (audioData s))) = audioData s"
proof -
  let ?xs = "audioData s"
  note small = wav_bytes_small [OF assms(1)]
  have len: "length (wav_bytes ?xs) = 44 + 2 * length ?xs"
    by (simp add: small length_wav_header length_concat_le16)
  have data: "drop 44 (wav_bytes ?xs) = concat (map le16 ?xs)"
    by (simp add: small length_wav_header)
  have dec: "samples_of_bytes (drop 44 (wav_bytes ?xs)) = ?xs"
    by (simp add: data samples_of_bytes_le16)
  have riff: "rd32 (wav_bytes ?xs) 4 = 36 + 2 * length ?xs"
    by (simp only: wav_riff_size_field wav_small_sizes(2) [OF assms(1)])
  have dsz: "rd32 (wav_bytes ?xs) 40 = 2 * length ?xs"
    by (simp only: wav_data_size_field wav_small_sizes(1) [OF assms(1)])
  show ?thesis
    using saveWAVFile_contents [OF assms(2)] len data dec riff dsz
      wav_fmt_fields32 [of ?xs] wav_fmt_fields16 [of ?xs] wav_tags [of ?xs]
    by blast
qed

theorem saveWAVFile_contract_witness:
  "36 + 2 * length (audioData ((new_AudioRecorder empty_fs :: (unit, unit) AudioRecorder)
        \<lparr>audioData := [1, - 2, 32767]\<rparr>)) < (2 :: nat) ^ 32
   \<and> writable (fs ((new_AudioRecorder empty_fs :: (unit, unit) AudioRecorder)
        \<lparr>audioData := [1, - 2, 32767]\<rparr>)) ''mikrofon_20240101_120000.wav''
   \<and> contents (fs (saveWAVFile ''mikrofon_20240101_120000.wav''
        ((new_AudioRecorder empty_fs :: (unit, unit) AudioRecorder)
          \<lparr>audioData := [1, - 2, 32767]\<rparr>))) ''mikrofon_20240101_120000.wav''
       = Some (Binary (wav_bytes [1, - 2, 32767]))
   \<and> length (wav_bytes [1, - 2, 32767]) = 50
   \<and> rd32 (wav_bytes [1, - 2, 32767]) 4 = 42
   \<and> rd32 (wav_bytes [1, - 2, 32767]) 40 = 6
   \<and> drop 44 (wav_bytes [1, - 2, 32767]) = [1, 0, 254, 255, 255, 127]
   \<and> samples_of_bytes (drop 44 (wav_bytes [1, - 2, 32767])) = [1, - 2, 32767]"
proof -
  let ?s = "(new_AudioRecorder empty_fs :: (unit, unit) AudioRecorder)
              \<lparr>audioData := [1, - 2, 32767]\<rparr>"
  have h1: "36 + 2 * length (audioData ?s) < (2 :: nat) ^ 32"
    by (simp add: new_AudioRecorder_def)
  have h2: "writable (fs ?s) ''mikrofon_20240101_120000.wav''"
    by (simp add: new_AudioRecorder_def empty_fs_def)
  have a: "audioData ?s = [1, - 2, 32767]"
    by (simp add: new_AudioRecorder_def)
  have le: "concat (map le16 [1, - 2, 32767]) = [1, 0, 254, 255, 255, 127]"
    by (simp add: le16_def)
  from saveWAVFile_contract [OF h1 h2] h1 h2 show ?thesis
    unfolding a le by (simp add: from_le16_def)
qed

text \<open>
  The claim as stated, for every \<open>N\<close>, fails at \<open>N = 2 ^ 31\<close>: the 32-bit data size wraps
  to 0, the RIFF chunk size is 36, and no sample byte is written.
\<close>

theorem saveWAVFile_large_counterexample:
  "rd32 (wav_bytes (replicate 2147483648 0)) 40 \<noteq> 2 * length (replicate 2147483648 (0 :: int16))
   \<and> rd32 (wav_bytes (replicate 2147483648 0)) 40 = 0
   \<and> rd32 (wav_bytes (replicate 2147483648 0)) 4 = 36
   \<and> length (wav_bytes (replicate 2147483648 0)) = 44
   \<and> samples_of_bytes (drop 44 (wav_bytes (replicate 2147483648 0))) \<noteq> replicate 2147483648 0"
proof -
  have sz: "(of_nat (length (replicate 2147483648 (0 :: int16)) * 2) :: 32 word) = 0"
    by simp
  have w: "wav_bytes (replicate 2147483648 0) = header_bytes (wav_header (replicate 2147483648 0))"
    by (simp add: wav_bytes_def wav_header_def)
  have l: "length (wav_bytes (replicate 2147483648 0)) = 44"
    unfolding w by (rule length_wav_header)
  then have d: "drop 44 (wav_bytes (replicate 2147483648 0)) = []"
    by simp
  have f40: "rd32 (wav_bytes (replicate 2147483648 0)) 40 = 0"
    unfolding wav_data_size_field sz by simp
  have f4: "rd32 (wav_bytes (replicate 2147483648 0)) 4 = 36"
    unfolding wav_riff_size_field sz by simp
  show ?thesis
    unfolding d f40 f4 l by simp
qed

section \<open>Properties of the capture loop\<close>

lemma sample_at_Cons2: "sample_at (lo # hi # bs) (Suc i) = sample_at bs i"
  by (simp add: sample_at_def)

lemma sample_at_0: "sample_at (lo # hi # bs) 0 = from_le16 lo hi"
  by (simp add: sample_at_def)

lemma length_samples_of_bytes: "length (samples_of_bytes bs) = length bs div 2"
  by (induction bs rule: samples_of_bytes.induct) simp_all

lemma chunk_samples:
  "map (sample_at (got @ rest)) [0..<length got div 2] = samples_of_bytes got"
proof (induction got rule: samples_of_bytes.induct)
  case (1 lo hi bs)
  have "[0..<Suc (length bs div 2)] = 0 # map Suc [0..<length bs div 2]"
    by (simp add: upt_conv_Cons map_Suc_upt del: upt_Suc)
  with 1 show ?case
    by (simp add: sample_at_0 sample_at_Cons2 comp_def del: upt_Suc)
qed simp_all

lemma bytesRead_even: "(if n mod 2 \<noteq> 0 then n - 1 else n) = 2 * (n div (2::nat))"
  by presburger


lemma extract_cases:
  obtains t where "extractTextFromJson p = Inr t"
  using extractTextFromJson_total [of p] by blast

lemma writePartialText_guard:
  "(if t \<noteq> [] then writePartialText t s else s) = writePartialText t s"
  by (simp add: writePartialText_def)

lemma writeRecognizedText_guard:
  "(if t \<noteq> [] then writeRecognizedText t s else s) = writeRecognizedText t s"
  by (simp add: writeRecognizedText_def)

lemma recognize_chunk_eq:
  assumes "rec s = Some r"
    and "vosk_recognizer_partial_result v r = (p, r1)"
    and "extractTextFromJson p = Inr pt"
    and "vosk_recognizer_accept_waveform v r1 c = (fin, r2)"
    and "vosk_recognizer_result v r2 = (res, r3)"
    and "extractTextFromJson res = Inr t"
  shows "recognize_chunk v c s =
     (None,
      if fin \<noteq> 0
      then (writeRecognizedText t (writePartialText pt s))
             \<lparr>rec := Some r3, calls := calls s @ [PartialResult, AcceptWaveform c, Result]\<rparr>
      else (writePartialText pt s)
             \<lparr>rec := Some r2, calls := calls s @ [PartialResult, AcceptWaveform c]\<rparr>)"
  using assms
  by (simp add: recognize_chunk_def Let_def writePartialText_def writeRecognizedText_def)

lemma recognize_chunk_cases:
  assumes "rec s = Some r"
  obtains pt t and fin :: int and r2 r3 where
    "recognize_chunk v c s =
     (None,
      if fin \<noteq> 0
      then (writeRecognizedText t (writePartialText pt s))
             \<lparr>rec := Some r3, calls := calls s @ [PartialResult, AcceptWaveform c, Result]\<rparr>
      else (writePartialText pt s)
             \<lparr>rec := Some r2, calls := calls s @ [PartialResult, AcceptWaveform c]\<rparr>)"
proof -
  obtain p r1 where p: "vosk_recognizer_partial_result v r = (p, r1)"
    by (cases "vosk_recognizer_partial_result v r")
  obtain pt where pt: "extractTextFromJson p = Inr pt" by (rule extract_cases)
  obtain fin r2 where a: "vosk_recognizer_accept_waveform v r1 c = (fin, r2)"
    by (cases "vosk_recognizer_accept_waveform v r1 c")
  obtain res r3 where r: "vosk_recognizer_result v r2 = (res, r3)"
    by (cases "vosk_recognizer_result v r2")
  obtain t where t: "extractTextFromJson res = Inr t" by (rule extract_cases)
  show thesis by (rule that [OF recognize_chunk_eq [OF assms p pt a r t]])
qed

lemma recognize_chunk_no_rec: "rec s = None \<Longrightarrow> recognize_chunk v c s = (None, s)"
  by (simp add: recognize_chunk_def)

text \<open>Frame facts for the publisher's operations.\<close>

lemma writePartialText_frame [simp]:
  "audioData (writePartialText t s) = audioData s"
  "running (writePartialText t s) = running s"
  "handlers_installed (writePartialText t s) = handlers_installed s"
  "rec (writePartialText t s) = rec s"
  "calls (writePartialText t s) = calls s"
  "accumulatedText (writePartialText t s) = accumulatedText s"
  by (simp_all add: writePartialText_def)

lemma writeRecognizedText_frame [simp]:
  "audioData (writeRecognizedText t s) = audioData s"
  "running (writeRecognizedText t s) = running s"
  "handlers_installed (writeRecognizedText t s) = handlers_installed s"
  "rec (writeRecognizedText t s) = rec s"
  "calls (writeRecognizedText t s) = calls s"
  by (simp_all add: writeRecognizedText_def Let_def)

lemma writeAudioLevel_frame [simp]:
  "audioData (writeAudioLevel n s) = audioData s"
  "running (writeAudioLevel n s) = running s"
  "handlers_installed (writeAudioLevel n s) = handlers_installed s"
  "rec (writeAudioLevel n s) = rec s"
  "calls (writeAudioLevel n s) = calls s"
  "accumulatedText (writeAudioLevel n s) = accumulatedText s"
  by (simp_all add: writeAudioLevel_def)

lemma recognize_chunk_frame:
  "fst (recognize_chunk v c s) = None
   \<and> audioData (snd (recognize_chunk v c s)) = audioData s
   \<and> running (snd (recognize_chunk v c s)) = running s
   \<and> handlers_installed (snd (recognize_chunk v c s)) = handlers_installed s
   \<and> (rec (snd (recognize_chunk v c s)) = None) = (rec s = None)"
proof (cases "rec s")
  case None
  then show ?thesis by (simp add: recognize_chunk_no_rec)
next
  case (Some r)
  show ?thesis
    by (rule recognize_chunk_cases [OF Some, where v = v and c = c]) (simp add: Some)
qed

lemma extends_ok_refl [simp]: "extends_ok f f"
  by (simp add: extends_ok_def)

lemma extends_ok_trans: "extends_ok f g \<Longrightarrow> extends_ok g h \<Longrightarrow> extends_ok f h"
  unfolding extends_ok_def by fastforce

lemma writes_writeToFile:
  "writes (writeToFile name c f) =
     writes f @ (if writable f name then [(name, Text (c @ [newline]))] else [])"
  by (simp add: writeToFile_def)

lemma level_file_neq_text_file: "OUTPUT_TEXT_FILE \<noteq> AUDIO_LEVEL_FILE"
  by (simp add: OUTPUT_TEXT_FILE_def AUDIO_LEVEL_FILE_def)

lemma extends_ok_writeToFile_other:
  "name \<noteq> AUDIO_LEVEL_FILE \<Longrightarrow> extends_ok f (writeToFile name c f)"
  by (simp add: extends_ok_def writes_writeToFile level_write_ok_def)

lemma extends_ok_writeToFile_level:
  "0 \<le> n \<Longrightarrow> n \<le> 10 \<Longrightarrow> extends_ok f (writeToFile AUDIO_LEVEL_FILE (to_string n) f)"
  by (auto simp: extends_ok_def writes_writeToFile level_write_ok_def)

lemma extends_ok_write_binary:
  "name \<noteq> AUDIO_LEVEL_FILE \<Longrightarrow> extends_ok f (write_binary name bs f)"
  by (simp add: extends_ok_def write_binary_def level_write_ok_def)

lemma to_string_0: "to_string 0 = ''0''"
  by (simp add: to_string_def digits.simps)

lemma extends_ok_clearFiles: "extends_ok (fs s) (fs (clearFiles s))"
proof -
  have "extends_ok (fs s) (writeToFile OUTPUT_TEXT_FILE [] (fs s))"
    by (rule extends_ok_writeToFile_other [OF level_file_neq_text_file])
  moreover have "extends_ok (writeToFile OUTPUT_TEXT_FILE [] (fs s))
      (writeToFile AUDIO_LEVEL_FILE (to_string 0) (writeToFile OUTPUT_TEXT_FILE [] (fs s)))"
    by (rule extends_ok_writeToFile_level) simp_all
  ultimately show ?thesis
    by (simp add: clearFiles_def to_string_0 extends_ok_trans)
qed

lemma extends_ok_writePartialText: "extends_ok (fs s) (fs (writePartialText t s))"
  by (simp add: writePartialText_def extends_ok_writeToFile_other level_file_neq_text_file)

lemma extends_ok_writeRecognizedText: "extends_ok (fs s) (fs (writeRecognizedText t s))"
  by (simp add: writeRecognizedText_def Let_def extends_ok_writeToFile_other
      level_file_neq_text_file)

lemma extends_ok_writeAudioLevel:
  "0 \<le> n \<Longrightarrow> n \<le> 10 \<Longrightarrow> extends_ok (fs s) (fs (writeAudioLevel n s))"
  by (simp add: writeAudioLevel_def extends_ok_writeToFile_level)

lemma extends_ok_saveWAVFile:
  "name \<noteq> AUDIO_LEVEL_FILE \<Longrightarrow> extends_ok (fs s) (fs (saveWAVFile name s))"
  by (simp add: saveWAVFile_def extends_ok_write_binary)

lemma extends_ok_recognize_chunk: "extends_ok (fs s) (fs (snd (recognize_chunk v c s)))"
proof (cases "rec s")
  case None
  then show ?thesis by (simp add: recognize_chunk_no_rec)
next
  case (Some r)
  have both: "extends_ok (fs s) (fs (writeRecognizedText t (writePartialText pt s)))" for t pt
    by (rule extends_ok_trans [OF extends_ok_writePartialText extends_ok_writeRecognizedText])
  show ?thesis
    by (rule recognize_chunk_cases [OF Some, where v = v and c = c])
      (simp add: extends_ok_writePartialText both)
qed

lemma process_chunk_eq:
  "process_chunk v (length got) (got @ rest) l s =
     (fst (recognize_chunk v (take (2 * (length got div 2)) got)
        (if (updateCounter l + 1) mod 2 = 0
         then writeAudioLevel (calculateAudioLevel (samples_of_bytes got))
                (s\<lparr>audioData := audioData s @ samples_of_bytes got\<rparr>)
         else s\<lparr>audioData := audioData s @ samples_of_bytes got\<rparr>)),
      l\<lparr>buffer := got @ rest, totalBytes := totalBytes l + 2 * (length got div 2),
        updateCounter := updateCounter l + 1,
        chunkBuffer := chunkBuffer l @ samples_of_bytes got\<rparr>,
      snd (recognize_chunk v (take (2 * (length got div 2)) got)
        (if (updateCounter l + 1) mod 2 = 0
         then writeAudioLevel (calculateAudioLevel (samples_of_bytes got))
                (s\<lparr>audioData := audioData s @ samples_of_bytes got\<rparr>)
         else s\<lparr>audioData := audioData s @ samples_of_bytes got\<rparr>)))"
proof -
  have d: "2 * (length got div 2) div 2 = length got div 2" by simp
  show ?thesis
    unfolding process_chunk_def bytesRead_even Let_def d chunk_samples
    by (simp add: split_beta)
qed

lemma process_chunk_facts:
  assumes "process_chunk v (length got) (got @ rest) l s = (err, l1, s1)"
    and "length got \<le> 320"
  shows "err = None"
    and "audioData s1 = audioData s @ samples_of_bytes got"
    and "chunkBuffer l1 = chunkBuffer l @ samples_of_bytes got"
    and "totalBytes l1 = totalBytes l + 2 * length (samples_of_bytes got)"
    and "running s1 = running s"
    and "handlers_installed s1 = handlers_installed s"
    and "(rec s1 = None) = (rec s = None)"
    and "extends_ok (fs s) (fs s1)"
proof -
  let ?a = "s\<lparr>audioData := audioData s @ samples_of_bytes got\<rparr>"
  let ?s2 = "if (updateCounter l + 1) mod 2 = 0
         then writeAudioLevel (calculateAudioLevel (samples_of_bytes got)) ?a else ?a"
  let ?c = "take (2 * (length got div 2)) got"
  from assms(1) have e: "err = fst (recognize_chunk v ?c ?s2)"
    and l1: "l1 = l\<lparr>buffer := got @ rest, totalBytes := totalBytes l + 2 * (length got div 2),
        updateCounter := updateCounter l + 1,
        chunkBuffer := chunkBuffer l @ samples_of_bytes got\<rparr>"
    and s1: "s1 = snd (recognize_chunk v ?c ?s2)"
    unfolding process_chunk_eq by simp_all
  note fr = recognize_chunk_frame [of v ?c ?s2]
  show "err = None" using fr e by simp
  show "audioData s1 = audioData s @ samples_of_bytes got" using fr s1 by simp
  show "chunkBuffer l1 = chunkBuffer l @ samples_of_bytes got" using l1 by simp
  show "totalBytes l1 = totalBytes l + 2 * length (samples_of_bytes got)"
    using l1 by (simp add: length_samples_of_bytes)
  show "running s1 = running s" using fr s1 by simp
  show "handlers_installed s1 = handlers_installed s" using fr s1 by simp
  show "(rec s1 = None) = (rec s = None)" using fr s1 by simp
  have "length (samples_of_bytes got) < 65536"
    using assms(2) by (simp add: length_samples_of_bytes)
  from calculateAudioLevel_range [OF this]
  have "extends_ok (fs ?a) (fs (writeAudioLevel (calculateAudioLevel (samples_of_bytes got)) ?a))"
    by (intro extends_ok_writeAudioLevel) simp_all
  then have "extends_ok (fs s) (fs ?s2)" by simp
  from extends_ok_trans [OF this extends_ok_recognize_chunk [of ?s2 v ?c]] s1
  show "extends_ok (fs s) (fs s1)" by simp
qed

lemma signal_lambda_id [simp]: "signal_lambda s = s"
  by (simp add: signal_lambda_def handler_instance_def)

lemma samples_of_reads_simps [simp]:
  "samples_of_reads [] = []"
  "samples_of_reads (io # rest) = samples_of_bytes (take 320 (snd io)) @ samples_of_reads rest"
  by (simp_all add: samples_of_reads_def)

lemma min_320_zero: "(min (length xs) 320 = 0) = (xs = [])"
  by (cases xs) (simp_all add: min_def)

lemma capture_loop_Cons:
  "capture_loop v (io # rest) l s =
     (if fst io \<and> \<not> handlers_installed s then (Killed, l, s)
      else if \<not> running s then (Returned (), l, s)
      else if snd io = [] then (Returned (), l, s)
      else (case process_chunk v (length (take 320 (snd io)))
                   (take 320 (snd io) @ drop (length (take 320 (snd io))) (buffer l)) l s of
              (Some e, l1, s1) \<Rightarrow> (Threw e, l1, s1)
            | (None, l1, s1) \<Rightarrow> capture_loop v rest l1 s1))"
  by (cases "snd io = []") (simp_all add: deliver_signal_def fread_def Let_def min_320_zero)

declare capture_loop.simps(2) [simp del]

lemma capture_loop_chunk:
  assumes "\<not> (fst io \<and> \<not> handlers_installed s)" and "running s" and "snd io \<noteq> []"
    and "process_chunk v (length (take 320 (snd io)))
           (take 320 (snd io) @ drop (length (take 320 (snd io))) (buffer l)) l s = (None, l1, s1)"
  shows "capture_loop v (io # rest) l s = capture_loop v rest l1 s1"
  using assms by (auto simp: capture_loop_Cons)

lemma loop_inv_stop: "\<forall>e. out \<noteq> Threw e \<Longrightarrow> loop_inv inputs l s out l s"
proof -
  assume a: "\<forall>e. out \<noteq> Threw e"
  have "\<exists>k\<le>length inputs.
        audioData s = audioData s @ samples_of_reads (take k inputs)
        \<and> chunkBuffer l = chunkBuffer l @ samples_of_reads (take k inputs)
        \<and> totalBytes l = totalBytes l + 2 * length (samples_of_reads (take k inputs))"
    by (rule exI [of _ 0]) simp
  with a show ?thesis unfolding loop_inv_def by simp
qed

lemma loop_inv_step:
  assumes f: "audioData s1 = audioData s @ samples_of_bytes (take 320 (snd io))"
    "chunkBuffer l1 = chunkBuffer l @ samples_of_bytes (take 320 (snd io))"
    "totalBytes l1 = totalBytes l + 2 * length (samples_of_bytes (take 320 (snd io)))"
    "running s1 = running s" "handlers_installed s1 = handlers_installed s"
    "(rec s1 = None) = (rec s = None)" "extends_ok (fs s) (fs s1)"
    and r: "loop_inv rest l1 s1 out l' s'"
  shows "loop_inv (io # rest) l s out l' s'"
proof -
  from r have ex: "\<exists>k\<le>length rest.
        audioData s' = audioData s1 @ samples_of_reads (take k rest)
        \<and> chunkBuffer l' = chunkBuffer l1 @ samples_of_reads (take k rest)
        \<and> totalBytes l' = totalBytes l1 + 2 * length (samples_of_reads (take k rest))"
    and r': "extends_ok (fs s1) (fs s')" "(rec s' = None) = (rec s1 = None)"
      "handlers_installed s' = handlers_installed s1" "running s' = running s1"
      "\<forall>e. out \<noteq> Threw e"
    unfolding loop_inv_def by simp_all
  from ex obtain k where k: "k \<le> length rest"
      "audioData s' = audioData s1 @ samples_of_reads (take k rest)"
      "chunkBuffer l' = chunkBuffer l1 @ samples_of_reads (take k rest)"
      "totalBytes l' = totalBytes l1 + 2 * length (samples_of_reads (take k rest))"
    by (elim exE conjE) (rule that; assumption)
  have "Suc k \<le> length (io # rest)
      \<and> audioData s' = audioData s @ samples_of_reads (take (Suc k) (io # rest))
      \<and> chunkBuffer l' = chunkBuffer l @ samples_of_reads (take (Suc k) (io # rest))
      \<and> totalBytes l' = totalBytes l
        + 2 * length (samples_of_reads (take (Suc k) (io # rest)))"
    using k f(1,2,3) by simp
  then have "\<exists>k\<le>length (io # rest).
        audioData s' = audioData s @ samples_of_reads (take k (io # rest))
        \<and> chunkBuffer l' = chunkBuffer l @ samples_of_reads (take k (io # rest))
        \<and> totalBytes l' = totalBytes l + 2 * length (samples_of_reads (take k (io # rest)))"
    by (rule exI [of _ "Suc k"])
  moreover from extends_ok_trans [OF f(7) r'(1)] have "extends_ok (fs s) (fs s')" .
  moreover from r'(2) f(6) have "(rec s' = None) = (rec s = None)" by simp
  moreover from r'(3) f(5) have "handlers_installed s' = handlers_installed s" by simp
  moreover from r'(4) f(4) have "running s' = running s" by simp
  ultimately show ?thesis unfolding loop_inv_def using r'(5) by simp
qed

lemma capture_loop_invariant:
  "capture_loop v inputs l s = (out, l', s') \<Longrightarrow> loop_inv inputs l s out l' s'"
proof (induction inputs arbitrary: l s)
  case Nil
  then have "out = Returned ()" "l' = l" "s' = s" by simp_all
  then show ?case by (simp add: loop_inv_stop)
next
  case (Cons io rest)
  let ?got = "take 320 (snd io)"
  consider (killed) "fst io \<and> \<not> handlers_installed s"
    | (stopped) "\<not> (fst io \<and> \<not> handlers_installed s)" "\<not> running s"
    | (eof) "\<not> (fst io \<and> \<not> handlers_installed s)" "running s" "snd io = []"
    | (chunk) "\<not> (fst io \<and> \<not> handlers_installed s)" "running s" "snd io \<noteq> []"
    by blast
  then show ?case
  proof cases
    case killed
    with Cons.prems have "out = Killed" "l' = l" "s' = s"
      by (simp_all add: capture_loop_Cons)
    then show ?thesis by (simp add: loop_inv_stop)
  next
    case stopped
    with Cons.prems have "out = Returned ()" "l' = l" "s' = s"
      by (simp_all add: capture_loop_Cons)
    then show ?thesis by (simp add: loop_inv_stop)
  next
    case eof
    with Cons.prems have "out = Returned ()" "l' = l" "s' = s"
      by (simp_all add: capture_loop_Cons)
    then show ?thesis by (simp add: loop_inv_stop)
  next
    case chunk
    obtain err l1 s1 where pc:
      "process_chunk v (length ?got) (?got @ drop (length ?got) (buffer l)) l s = (err, l1, s1)"
      by (cases "process_chunk v (length ?got) (?got @ drop (length ?got) (buffer l)) l s")
    have "length ?got \<le> 320" by simp
    note f = process_chunk_facts [OF pc this]
    from Cons.prems have "(case process_chunk v (length ?got)
                   (?got @ drop (length ?got) (buffer l)) l s of
              (Some e, l1, s1) \<Rightarrow> (Threw e, l1, s1)
            | (None, l1, s1) \<Rightarrow> capture_loop v rest l1 s1) = (out, l', s')"
      using chunk by (simp add: capture_loop_Cons)
    then have "capture_loop v rest l1 s1 = (out, l', s')"
      unfolding pc f(1) by simp
    from Cons.IH [OF this] have "loop_inv rest l1 s1 out l' s'" .
    from loop_inv_step [OF f(2,3,4,5,6,7,8) this] show ?thesis .
  qed
qed

lemma capture_loop_complete:
  "running s \<Longrightarrow> \<forall>io\<in>set inputs. \<not> fst io \<and> snd io \<noteq> [] \<Longrightarrow>
   capture_loop v inputs l s = (out, l', s') \<Longrightarrow>
   out = Returned () \<and> audioData s' = audioData s @ samples_of_reads inputs
   \<and> chunkBuffer l' = chunkBuffer l @ samples_of_reads inputs
   \<and> totalBytes l' = totalBytes l + 2 * length (samples_of_reads inputs)"
proof (induction inputs arbitrary: l s)
  case Nil
  then show ?case by auto
next
  case (Cons io rest)
  let ?got = "take 320 (snd io)"
  from Cons.prems(2) have io: "\<not> fst io" "snd io \<noteq> []" by simp_all
  obtain err l1 s1 where pc:
    "process_chunk v (length ?got) (?got @ drop (length ?got) (buffer l)) l s = (err, l1, s1)"
    by (cases "process_chunk v (length ?got) (?got @ drop (length ?got) (buffer l)) l s")
  have "length ?got \<le> 320" by simp
  note f = process_chunk_facts [OF pc this]
  from io(1) have nk: "\<not> (fst io \<and> \<not> handlers_installed s)" by simp
  from pc f(1) have "process_chunk v (length ?got) (?got @ drop (length ?got) (buffer l)) l s
      = (None, l1, s1)" by simp
  from capture_loop_chunk [OF nk Cons.prems(1) io(2) this] Cons.prems(3)
  have "capture_loop v rest l1 s1 = (out, l', s')" by simp
  moreover from f(5) Cons.prems(1) have "running s1" by simp
  moreover from Cons.prems(2) have "\<forall>io\<in>set rest. \<not> fst io \<and> snd io \<noteq> []" by simp
  ultimately have "out = Returned () \<and> audioData s' = audioData s1 @ samples_of_reads rest
   \<and> chunkBuffer l' = chunkBuffer l1 @ samples_of_reads rest
   \<and> totalBytes l' = totalBytes l1 + 2 * length (samples_of_reads rest)"
    using Cons.IH by blast
  with f show ?case by simp
qed











text \<open>
  Claim C9. The claim does not hold of the code: \<open>chunkBuffer\<close>, which lives across the
  iterations, receives every sample that the Sample Buffer receives and is never
  emptied, so after any run of the loop it holds a second copy of all the chunks read.
  After two reads of two samples and one sample it holds the three samples.
\<close>

theorem chunkBuffer_keeps_every_chunk:
  "chunkBuffer (fst (snd (capture_loop v inputs l s)))
     = chunkBuffer l
       @ drop (length (audioData s)) (audioData (snd (snd (capture_loop v inputs l s))))
   \<and> chunkBuffer (fst (snd (capture_loop vosk_unavailable
         [(False, [1, 0, 2, 0]), (False, [3, 0])]
         \<lparr>buffer = replicate 320 0, totalBytes = 0, updateCounter = 0, chunkBuffer = []\<rparr>
         (new_AudioRecorder empty_fs)))) = [1, 2, 3]"
proof -
  have g: "chunkBuffer (fst (snd (capture_loop v inputs l s)))
     = chunkBuffer l
       @ drop (length (audioData s)) (audioData (snd (snd (capture_loop v inputs l s))))"
    for v :: "('m, 'r) vosk" and inputs l and s :: "('m, 'r) AudioRecorder"
  proof -
    obtain out l' s' where run: "capture_loop v inputs l s = (out, l', s')"
      by (cases "capture_loop v inputs l s")
    from capture_loop_invariant [OF this]
    have "\<exists>k\<le>length inputs.
        audioData s' = audioData s @ samples_of_reads (take k inputs)
        \<and> chunkBuffer l' = chunkBuffer l @ samples_of_reads (take k inputs)
        \<and> totalBytes l' = totalBytes l + 2 * length (samples_of_reads (take k inputs))"
      unfolding loop_inv_def by simp
    then obtain k where "audioData s' = audioData s @ samples_of_reads (take k inputs)"
      "chunkBuffer l' = chunkBuffer l @ samples_of_reads (take k inputs)"
      by (elim exE conjE) (rule that; assumption)
    then show ?thesis unfolding run by simp
  qed
  let ?I = "[(False, [1, 0, 2, 0]), (False, [3, 0 :: byte])]"
  let ?L = "\<lparr>buffer = replicate 320 0, totalBytes = 0, updateCounter = 0, chunkBuffer = []\<rparr>"
  let ?S = "new_AudioRecorder empty_fs :: (unit, nat) AudioRecorder"
  obtain out l' s' where run: "capture_loop vosk_unavailable ?I ?L ?S = (out, l', s')"
    by (cases "capture_loop vosk_unavailable ?I ?L ?S")
  have "running ?S" by (simp add: new_AudioRecorder_def)
  moreover have "\<forall>io\<in>set ?I. \<not> fst io \<and> snd io \<noteq> []" by simp
  ultimately have "chunkBuffer l' = chunkBuffer ?L @ samples_of_reads ?I"
    using capture_loop_complete [OF _ _ run] by blast
  then have "chunkBuffer l' = [1, 2, 3]"
    by (simp add: samples_of_reads_def from_le16_def)
  then have c: "chunkBuffer (fst (snd (capture_loop vosk_unavailable ?I ?L ?S))) = [1, 2, 3]"
    unfolding run by simp
  show ?thesis
    by (rule conjI g c)+
qed

lemma recognize_chunk_unfolded:
  assumes "rec s = Some r"
  shows "\<exists>pt t.
     extractTextFromJson (fst (vosk_recognizer_partial_result v r)) = Inr pt
     \<and> extractTextFromJson
          (fst (vosk_recognizer_result v
             (snd (vosk_recognizer_accept_waveform v (snd (vosk_recognizer_partial_result v r))
                chunk)))) = Inr t
     \<and> recognize_chunk v chunk s =
         (None,
          if fst (vosk_recognizer_accept_waveform v (snd (vosk_recognizer_partial_result v r))
                chunk) \<noteq> 0
          then (writeRecognizedText t (writePartialText pt s))
                 \<lparr>rec := Some (snd (vosk_recognizer_result v
                     (snd (vosk_recognizer_accept_waveform v
                        (snd (vosk_recognizer_partial_result v r)) chunk)))),
                   calls := calls s @ [PartialResult, AcceptWaveform chunk, Result]\<rparr>
          else (writePartialText pt s)
                 \<lparr>rec := Some (snd (vosk_recognizer_accept_waveform v
                        (snd (vosk_recognizer_partial_result v r)) chunk)),
                   calls := calls s @ [PartialResult, AcceptWaveform chunk]\<rparr>)"
proof -
  obtain p r1 where p: "vosk_recognizer_partial_result v r = (p, r1)"
    by (cases "vosk_recognizer_partial_result v r")
  obtain pt where pt: "extractTextFromJson p = Inr pt" by (rule extract_cases)
  obtain fin r2 where a: "vosk_recognizer_accept_waveform v r1 chunk = (fin, r2)"
    by (cases "vosk_recognizer_accept_waveform v r1 chunk")
  obtain res r3 where r: "vosk_recognizer_result v r2 = (res, r3)"
    by (cases "vosk_recognizer_result v r2")
  obtain t where t: "extractTextFromJson res = Inr t" by (rule extract_cases)
  from recognize_chunk_eq [OF assms p pt a r t] pt t
  show ?thesis unfolding p a r fst_conv snd_conv by blast
qed

lemma recognize_chunk_calls:
  assumes "rec s = Some r"
  shows "calls (snd (recognize_chunk v chunk s)) =
     calls s @ PartialResult # AcceptWaveform chunk #
       (if fst (vosk_recognizer_accept_waveform v (snd (vosk_recognizer_partial_result v r))
              chunk) \<noteq> 0 then [Result] else [])"
  using recognize_chunk_unfolded [OF assms, of v chunk] by auto

lemma process_chunk_calls:
  assumes "rec s = Some r"
  shows "calls (snd (snd (process_chunk v (length got) (got @ rest) l s))) =
     calls s @ PartialResult # AcceptWaveform (take (2 * (length got div 2)) got) #
       (if fst (vosk_recognizer_accept_waveform v (snd (vosk_recognizer_partial_result v r))
              (take (2 * (length got div 2)) got)) \<noteq> 0 then [Result] else [])"
proof -
  let ?a = "s\<lparr>audioData := audioData s @ samples_of_bytes got\<rparr>"
  let ?s2 = "if (updateCounter l + 1) mod 2 = 0
         then writeAudioLevel (calculateAudioLevel (samples_of_bytes got)) ?a else ?a"
  have "rec ?s2 = Some r" and "calls ?s2 = calls s" using assms by simp_all
  with recognize_chunk_calls [of ?s2 r v "take (2 * (length got div 2)) got"]
  show ?thesis unfolding process_chunk_eq by simp
qed

text \<open>
  Claim C3. In an iteration in which the recognizer exists, the partial result is
  retrieved and its extracted text is passed to \<open>writePartialText\<close>; the chunk is then fed
  once to the accept operation; if that reports a completed segment, the result is
  retrieved and its extracted text is passed to \<open>writeRecognizedText\<close>. Neither extraction
  fails. The calls made on the recognizer in the iteration are the partial result, one
  accept with the bytes of the chunk, and the result exactly if the accept reported
  completion. (The code skips the two publishing calls for an empty text, for which they
  do nothing.)
\<close>

theorem recognize_chunk_contract:
  assumes "rec s = Some r"
  shows "(\<exists>pt t.
     extractTextFromJson (fst (vosk_recognizer_partial_result v r)) = Inr pt
     \<and> extractTextFromJson
          (fst (vosk_recognizer_result v
             (snd (vosk_recognizer_accept_waveform v (snd (vosk_recognizer_partial_result v r))
                chunk)))) = Inr t
     \<and> recognize_chunk v chunk s =
         (None,
          if fst (vosk_recognizer_accept_waveform v (snd (vosk_recognizer_partial_result v r))
                chunk) \<noteq> 0
          then (writeRecognizedText t (writePartialText pt s))
                 \<lparr>rec := Some (snd (vosk_recognizer_result v
                     (snd (vosk_recognizer_accept_waveform v
                        (snd (vosk_recognizer_partial_result v r)) chunk)))),
                   calls := calls s @ [PartialResult, AcceptWaveform chunk, Result]\<rparr>
          else (writePartialText pt s)
                 \<lparr>rec := Some (snd (vosk_recognizer_accept_waveform v
                        (snd (vosk_recognizer_partial_result v r)) chunk)),
                   calls := calls s @ [PartialResult, AcceptWaveform chunk]\<rparr>))
   \<and> calls (snd (snd (process_chunk v (length got) (got @ rest) l s))) =
       calls s @ PartialResult # AcceptWaveform (take (2 * (length got div 2)) got) #
         (if fst (vosk_recognizer_accept_waveform v (snd (vosk_recognizer_partial_result v r))
                (take (2 * (length got div 2)) got)) \<noteq> 0 then [Result] else [])"
  using recognize_chunk_unfolded [OF assms] process_chunk_calls [OF assms] by blast

theorem recognize_chunk_contract_witness:
  "rec ((new_AudioRecorder empty_fs :: (unit, nat) AudioRecorder)\<lparr>rec := Some 1\<rparr>) = Some 1
   \<and> recognize_chunk vosk_stub [0, 64]
        ((new_AudioRecorder empty_fs :: (unit, nat) AudioRecorder)\<lparr>rec := Some 1\<rparr>)
       = (None,
          (writeRecognizedText ''hello''
             ((new_AudioRecorder empty_fs :: (unit, nat) AudioRecorder)\<lparr>rec := Some 1\<rparr>))
            \<lparr>rec := Some 2, calls := [PartialResult, AcceptWaveform [0, 64], Result]\<rparr>)
   \<and> calls (snd (snd (process_chunk vosk_stub (length [0, 64, 7 :: byte])
        ([0, 64, 7] @ replicate 317 0)
        \<lparr>buffer = replicate 320 0, totalBytes = 0, updateCounter = 0, chunkBuffer = []\<rparr>
        ((new_AudioRecorder empty_fs :: (unit, nat) AudioRecorder)\<lparr>rec := Some 1\<rparr>))))
       = [PartialResult, AcceptWaveform [0, 64], Result]"
proof -
  let ?S = "(new_AudioRecorder empty_fs :: (unit, nat) AudioRecorder)\<lparr>rec := Some 1\<rparr>"
  let ?L = "\<lparr>buffer = replicate 320 0, totalBytes = 0, updateCounter = 0, chunkBuffer = []\<rparr>"
  have h: "rec ?S = Some 1" by simp
  have p: "extractTextFromJson (fst (vosk_recognizer_partial_result vosk_stub 1)) = Inr []"
    by (simp add: vosk_stub_def extractTextFromJson_def str_find_def text_key_def dquote_def)
  have t: "extractTextFromJson (fst (vosk_recognizer_result vosk_stub 2)) = Inr ''hello''"
    by (simp add: vosk_stub_def extractTextFromJson_def str_find_def text_key_def dquote_def
        substr_def)
  have a: "vosk_recognizer_accept_waveform vosk_stub 1 c = (1, 2)" for c
    by (simp add: vosk_stub_def)
  have q: "snd (vosk_recognizer_partial_result vosk_stub 1) = 1"
    "snd (vosk_recognizer_result vosk_stub 2) = 2"
    by (simp_all add: vosk_stub_def)
  have c0: "calls ?S = []" by (simp add: new_AudioRecorder_def)
  note th = recognize_chunk_contract [OF h, of vosk_stub "[0, 64]" "[0, 64, 7]" "replicate 317 0" ?L]
  from th have r1: "recognize_chunk vosk_stub [0, 64] ?S
       = (None, (writeRecognizedText ''hello'' ?S)
            \<lparr>rec := Some 2, calls := [PartialResult, AcceptWaveform [0, 64], Result]\<rparr>)"
    unfolding q a fst_conv snd_conv p t c0 by (auto simp: writePartialText_def)
  from th have r2: "calls (snd (snd (process_chunk vosk_stub (length [0, 64, 7 :: byte])
        ([0, 64, 7] @ replicate 317 0) ?L ?S)))
       = [PartialResult, AcceptWaveform [0, 64], Result]"
    unfolding q a fst_conv snd_conv c0 by simp
  show ?thesis
    by (rule conjI h r1 r2)+
qed

lemma wav_name_neq_level_file:
  "(if mode = (1::int) then ''mikrofon_'' else ''sistem_sesi_'') @ ts @ ''.wav'' \<noteq> AUDIO_LEVEL_FILE"
  by (simp add: AUDIO_LEVEL_FILE_def)

lemma extends_ok_finish_session:
  assumes "name \<noteq> AUDIO_LEVEL_FILE"
  shows "extends_ok (fs s) (fs (snd (finish_session v name s)))"
proof -
  have tail: "extends_ok (fs s1)
      (fs (writeAudioLevel 0 (if audioData s1 \<noteq> [] then saveWAVFile name s1 else s1)))"
    for s1 :: "('a, 'b) AudioRecorder"
  proof -
    have "extends_ok (fs s1) (fs (if audioData s1 \<noteq> [] then saveWAVFile name s1 else s1))"
      by (simp add: extends_ok_saveWAVFile [OF assms])
    moreover have "extends_ok (fs (if audioData s1 \<noteq> [] then saveWAVFile name s1 else s1))
      (fs (writeAudioLevel 0 (if audioData s1 \<noteq> [] then saveWAVFile name s1 else s1)))"
      by (rule extends_ok_writeAudioLevel) simp_all
    ultimately show ?thesis by (rule extends_ok_trans)
  qed
  show ?thesis
  proof (cases "rec s")
    case None
    with tail [of s] show ?thesis by (simp add: finish_session_def)
  next
    case (Some r)
    obtain res r1 where f: "vosk_recognizer_final_result v r = (res, r1)"
      by (cases "vosk_recognizer_final_result v r")
    obtain t where t: "extractTextFromJson res = Inr t" by (rule extract_cases)
    let ?s0 = "s\<lparr>rec := Some r1, calls := calls s @ [FinalResult]\<rparr>"
    let ?s1 = "writeRecognizedText t ?s0"
    have "extends_ok (fs s) (fs ?s1)"
      using extends_ok_writeRecognizedText [of ?s0 t] by simp
    from extends_ok_trans [OF this tail [of ?s1]] show ?thesis
      by (simp add: finish_session_def Some f t writeRecognizedText_guard)
  qed
qed

lemma extends_ok_record_session:
  "extends_ok (fs s) (fs (snd (record_session v env mode s)))"
proof -
  let ?name = "(if mode = 1 then ''mikrofon_'' else ''sistem_sesi_'') @ timestamp env @ ''.wav''"
  let ?l0 = "\<lparr>buffer = uninitialised env, totalBytes = 0, updateCounter = 0, chunkBuffer = []\<rparr>"
  obtain out l1 s1 where run: "capture_loop v (source env) ?l0 s = (out, l1, s1)"
    by (cases "capture_loop v (source env) ?l0 s")
  from capture_loop_invariant [OF run] have e1: "extends_ok (fs s) (fs s1)"
    by (simp add: loop_inv_def)
  from extends_ok_finish_session [OF wav_name_neq_level_file, of s1 v mode "timestamp env"]
  have e2: "extends_ok (fs s1) (fs (snd (finish_session v ?name s1)))" .
  note e3 = extends_ok_trans [OF e1 e2]
  have fin: "extends_ok (fs s) (fs (snd (case capture_loop v (source env) ?l0 s of
                    (Returned u, l, s1) \<Rightarrow> finish_session v ?name s1
                  | (Killed, l, s1) \<Rightarrow> (Killed, s1)
                  | (Threw e, l, s1) \<Rightarrow> (Threw e, s1))))"
    using e1 e3 unfolding run by (cases out) simp_all
  show ?thesis
    unfolding record_session_def Let_def using fin by simp
qed

lemma initialize_cases:
  obtains s3 where "initialize v s = (False, s3)" and "fs s3 = fs s"
    and "accumulatedText s3 = accumulatedText s"
  | s3 where "initialize v s = (True, clearFiles s3)" and "fs s3 = fs s" and "rec s3 \<noteq> None"
proof -
  define modelPath where
    "modelPath = (if readCurrentModelPath (fs s) = [] then MODEL_PATH
                  else readCurrentModelPath (fs s))"
  define s1 where "s1 = s\<lparr>model := vosk_model_new v modelPath\<rparr>"
  define s2 where "s2 = (if model s1 = None \<and> modelPath \<noteq> MODEL_PATH
                then s1\<lparr>model := vosk_model_new v MODEL_PATH\<rparr> else s1)"
  have i: "initialize v s =
      (case model s2 of
           None \<Rightarrow> (False, s2)
         | Some m \<Rightarrow>
             (let s3 = s2\<lparr>rec := vosk_recognizer_new v m\<rparr>
              in if rec s3 = None then (False, s3) else (True, clearFiles s3)))"
    unfolding initialize_def Let_def s2_def s1_def modelPath_def ..
  have f2: "fs s2 = fs s" "accumulatedText s2 = accumulatedText s"
    by (simp_all add: s2_def s1_def)
  show thesis
  proof (cases "model s2")
    case None
    with i have "initialize v s = (False, s2)" by simp
    from that(1) [OF this f2] show thesis .
  next
    case (Some m)
    let ?s3 = "s2\<lparr>rec := vosk_recognizer_new v m\<rparr>"
    have f3: "fs ?s3 = fs s" "accumulatedText ?s3 = accumulatedText s" using f2 by simp_all
    show thesis
    proof (cases "rec ?s3 = None")
      case True
      with i Some have "initialize v s = (False, ?s3)" by (simp add: Let_def)
      from that(1) [OF this f3] show thesis .
    next
      case False
      with i Some have "initialize v s = (True, clearFiles ?s3)" by (simp add: Let_def)
      from that(2) [OF this f3(1) False] show thesis .
    qed
  qed
qed

lemma extends_ok_initialize: "extends_ok (fs s) (fs (snd (initialize v s)))"
proof (rule initialize_cases [of v s])
  fix s3 assume "initialize v s = (False, s3)" "fs s3 = fs s"
  then show ?thesis by simp
next
  fix s3 assume "initialize v s = (True, clearFiles s3)" "fs s3 = fs s"
  with extends_ok_clearFiles [of s3] show ?thesis by simp
qed

lemma extends_ok_main: "extends_ok f (fs (snd (main v env f)))"
proof -
  obtain en s1 where i: "initialize v (new_AudioRecorder f) = (en, s1)"
    by (cases "initialize v (new_AudioRecorder f)")
  from extends_ok_initialize [of "new_AudioRecorder f" v] i
  have e1: "extends_ok f (fs s1)" by (simp add: new_AudioRecorder_def)
  obtain out s2 where r: "record_session v env (choice env) s1 = (out, s2)"
    by (cases "record_session v env (choice env) s1")
  from extends_ok_record_session [of s1 v env "choice env"] r
  have "extends_ok (fs s1) (fs s2)" by simp
  from extends_ok_trans [OF e1 this] show ?thesis
    by (cases out) (simp_all add: main_def i r)
qed

lemma last_write_clearFiles:
  "writable (fs s) AUDIO_LEVEL_FILE \<Longrightarrow>
   last (writes (fs (clearFiles s))) = (AUDIO_LEVEL_FILE, Text (''0'' @ [newline]))"
  by (simp add: clearFiles_def writes_writeToFile)

lemma writable_finish_session_steps:
  "writable (fs (writeRecognizedText t s)) = writable (fs s)"
  "writable (fs (saveWAVFile name s)) = writable (fs s)"
  by (simp_all add: writeRecognizedText_def Let_def saveWAVFile_def write_binary_def)

lemma last_write_finish_session:
  assumes "writable (fs s) AUDIO_LEVEL_FILE"
  shows "last (writes (fs (snd (finish_session v name s))))
           = (AUDIO_LEVEL_FILE, Text (''0'' @ [newline]))"
proof -
  have tail: "last (writes (fs (writeAudioLevel 0
        (if audioData s1 \<noteq> [] then saveWAVFile name s1 else s1))))
      = (AUDIO_LEVEL_FILE, Text (''0'' @ [newline]))"
    if "writable (fs s1) AUDIO_LEVEL_FILE" for s1 :: "('a, 'b) AudioRecorder"
    using that
    by (simp add: writeAudioLevel_def writes_writeToFile writable_finish_session_steps
        to_string_0)
  show ?thesis
  proof (cases "rec s")
    case None
    with tail [OF assms] show ?thesis by (simp add: finish_session_def)
  next
    case (Some r)
    obtain res r1 where f: "vosk_recognizer_final_result v r = (res, r1)"
      by (cases "vosk_recognizer_final_result v r")
    obtain t where t: "extractTextFromJson res = Inr t" by (rule extract_cases)
    let ?s1 = "writeRecognizedText t (s\<lparr>rec := Some r1, calls := calls s @ [FinalResult]\<rparr>)"
    have "writable (fs ?s1) AUDIO_LEVEL_FILE"
      using assms by (simp add: writable_finish_session_steps)
    from tail [OF this] show ?thesis
      by (simp add: finish_session_def Some f t writeRecognizedText_guard)
  qed
qed

lemma level_16384: "calculateAudioLevel [16384] = 5"
  by (simp add: calculateAudioLevel_exact level_spec_def mean_magnitude_def trunc_int_def
      floor_eq_iff)

lemmas eval_session =
  main_def initialize_def readCurrentModelPath_def record_session_def finish_session_def
  getSystemAudioMonitor_def capture_loop.simps(2) deliver_signal_def fread_def process_chunk_def
  recognize_chunk_def sample_at_def Let_def new_AudioRecorder_def clearFiles_def
  writePartialText_def writeRecognizedText_def writeAudioLevel_def writeToFile_def
  saveWAVFile_def write_binary_def MODEL_PATH_def MODEL_CONFIG_FILE_def
  extractTextFromJson_def str_find_def text_key_def dquote_def substr_def
  to_string_def digits.simps from_le16_def level_16384

lemma example_run_writes:
  "writes (fs (snd (main vosk_stub example_env empty_fs))) =
     [(OUTPUT_TEXT_FILE, Text [newline]),
      (AUDIO_LEVEL_FILE, Text (''0'' @ [newline])),
      (AUDIO_LEVEL_FILE, Text (''5'' @ [newline])),
      (OUTPUT_TEXT_FILE, Text (''hello'' @ [newline])),
      (''mikrofon_20240101_120000.wav'', Binary (wav_bytes [16384, 16384, 16384])),
      (AUDIO_LEVEL_FILE, Text (''0'' @ [newline]))]"
  by (simp add: eval_session vosk_stub_def example_env_def empty_fs_def)

text \<open>
  Claim C10. Every write to the level file that a run of the program makes, from the
  start of \<open>main\<close> to its end, however the run ends, writes the decimal text of an integer
  between 0 and 10. The reset at the start of a session writes 0, and so does the last
  action of a session.
\<close>

theorem level_file_writes_in_range:
  "(\<forall>w\<in>set (drop (length (writes f)) (writes (fs (snd (main v env f))))).
      fst w = AUDIO_LEVEL_FILE \<longrightarrow>
      (\<exists>n. 0 \<le> n \<and> n \<le> 10 \<and> snd w = Text (to_string n @ [newline])))
   \<and> (writable (fs s) AUDIO_LEVEL_FILE \<longrightarrow>
        last (writes (fs (clearFiles s))) = (AUDIO_LEVEL_FILE, Text (''0'' @ [newline])))
   \<and> (writable (fs s) AUDIO_LEVEL_FILE \<longrightarrow>
        last (writes (fs (snd (finish_session v name s))))
          = (AUDIO_LEVEL_FILE, Text (''0'' @ [newline])))"
proof -
  from extends_ok_main [of f v env] obtain ws where
    ws: "writes (fs (snd (main v env f))) = writes f @ ws" and ok: "\<forall>w\<in>set ws. level_write_ok w"
    unfolding extends_ok_def by (elim exE conjE)
  have c1: "\<forall>w\<in>set (drop (length (writes f)) (writes (fs (snd (main v env f))))).
      fst w = AUDIO_LEVEL_FILE \<longrightarrow>
      (\<exists>n. 0 \<le> n \<and> n \<le> 10 \<and> snd w = Text (to_string n @ [newline]))"
    using ok unfolding ws by (simp add: level_write_ok_def)
  have c2: "writable (fs s) AUDIO_LEVEL_FILE \<longrightarrow>
        last (writes (fs (clearFiles s))) = (AUDIO_LEVEL_FILE, Text (''0'' @ [newline]))"
    using last_write_clearFiles [of s] by blast
  have c3: "writable (fs s) AUDIO_LEVEL_FILE \<longrightarrow>
        last (writes (fs (snd (finish_session v name s))))
          = (AUDIO_LEVEL_FILE, Text (''0'' @ [newline]))"
    using last_write_finish_session [of s v name] by blast
  show ?thesis
    by (rule conjI c1 c2 c3)+
qed

theorem level_file_writes_in_range_witness:
  "writes (fs (snd (main vosk_stub example_env empty_fs))) ! 2
     = (AUDIO_LEVEL_FILE, Text (''5'' @ [newline]))
   \<and> (\<exists>n. 0 \<le> n \<and> n \<le> 10
         \<and> snd (writes (fs (snd (main vosk_stub example_env empty_fs))) ! 2)
           = Text (to_string n @ [newline]))
   \<and> writable (fs (new_AudioRecorder empty_fs :: (unit, nat) AudioRecorder)) AUDIO_LEVEL_FILE
   \<and> last (writes (fs (clearFiles (new_AudioRecorder empty_fs :: (unit, nat) AudioRecorder))))
       = (AUDIO_LEVEL_FILE, Text (''0'' @ [newline]))
   \<and> last (writes (fs (snd (finish_session vosk_stub ''mikrofon_20240101_120000.wav''
        (new_AudioRecorder empty_fs :: (unit, nat) AudioRecorder)))))
       = (AUDIO_LEVEL_FILE, Text (''0'' @ [newline]))"
proof -
  let ?S = "new_AudioRecorder empty_fs :: (unit, nat) AudioRecorder"
  let ?W = "writes (fs (snd (main vosk_stub example_env empty_fs)))"
  note t = level_file_writes_in_range
    [of empty_fs vosk_stub example_env ?S "''mikrofon_20240101_120000.wav''"]
  have r1: "?W ! 2 = (AUDIO_LEVEL_FILE, Text (''5'' @ [newline]))"
    unfolding example_run_writes by simp
  have m: "?W ! 2 \<in> set (drop (length (writes empty_fs)) ?W)"
    unfolding example_run_writes by (simp add: empty_fs_def)
  have "fst (?W ! 2) = AUDIO_LEVEL_FILE" unfolding r1 by simp
  with t m have r2: "\<exists>n. 0 \<le> n \<and> n \<le> 10 \<and> snd (?W ! 2) = Text (to_string n @ [newline])"
    by blast
  have h: "writable (fs ?S) AUDIO_LEVEL_FILE"
    by (simp add: new_AudioRecorder_def empty_fs_def)
  from t h have r3: "last (writes (fs (clearFiles ?S)))
       = (AUDIO_LEVEL_FILE, Text (''0'' @ [newline]))"
    and r4: "last (writes (fs (snd (finish_session vosk_stub ''mikrofon_20240101_120000.wav'' ?S))))
       = (AUDIO_LEVEL_FILE, Text (''0'' @ [newline]))"
    by blast+
  show ?thesis
    by (rule conjI r1 r2 h r3 r4)+
qed

text \<open>
  Claim C2. The claim does not hold of the code. \<open>main\<close> never calls \<open>setSignalHandler\<close>,
  so the signals keep their default disposition: a signal delivered before the second
  iteration terminates the process, after which no final result is requested and no WAV
  file exists although samples were captured. Had the handlers been installed, they would
  still leave \<open>running\<close> as it is, and the loop would go on as if no signal had arrived.
\<close>

theorem signal_does_not_stop_the_loop:
  "fst (main vosk_stub
          (example_env\<lparr>source := [(False, [0, 64, 0, 64]), (True, [0, 64, 7])]\<rparr>) empty_fs)
     = Killed
   \<and> calls (snd (main vosk_stub
          (example_env\<lparr>source := [(False, [0, 64, 0, 64]), (True, [0, 64, 7])]\<rparr>) empty_fs))
     = [PartialResult, AcceptWaveform [0, 64, 0, 64]]
   \<and> audioData (snd (main vosk_stub
          (example_env\<lparr>source := [(False, [0, 64, 0, 64]), (True, [0, 64, 7])]\<rparr>) empty_fs))
     = [16384, 16384]
   \<and> contents (fs (snd (main vosk_stub
          (example_env\<lparr>source := [(False, [0, 64, 0, 64]), (True, [0, 64, 7])]\<rparr>) empty_fs)))
        ''mikrofon_20240101_120000.wav'' = None
   \<and> handlers_installed (snd (initialize v (new_AudioRecorder f))) = False
   \<and> running (signal_lambda s) = running s
   \<and> capture_loop v ((True, bs) # rest) l (setSignalHandler s)
       = capture_loop v ((False, bs) # rest) l (setSignalHandler s)"
proof -
  let ?E = "example_env\<lparr>source := [(False, [0, 64, 0, 64]), (True, [0, 64, 7])]\<rparr>"
  have c1: "fst (main vosk_stub ?E empty_fs) = Killed"
    by (simp add: eval_session vosk_stub_def example_env_def empty_fs_def)
  have c2: "calls (snd (main vosk_stub ?E empty_fs))
      = [PartialResult, AcceptWaveform [0, 64, 0, 64]]"
    by (simp add: eval_session vosk_stub_def example_env_def empty_fs_def)
  have c3: "audioData (snd (main vosk_stub ?E empty_fs)) = [16384, 16384]"
    by (simp add: eval_session vosk_stub_def example_env_def empty_fs_def)
  have c4: "contents (fs (snd (main vosk_stub ?E empty_fs))) ''mikrofon_20240101_120000.wav''
      = None"
    by (simp add: eval_session vosk_stub_def example_env_def empty_fs_def
        OUTPUT_TEXT_FILE_def AUDIO_LEVEL_FILE_def)
  have c5: "handlers_installed (snd (initialize v (new_AudioRecorder f))) = False"
    by (simp add: initialize_def Let_def new_AudioRecorder_def clearFiles_def
        split: option.splits)
  have c6: "running (signal_lambda s) = running s"
    by simp
  have c7: "capture_loop v ((True, bs) # rest) l (setSignalHandler s)
       = capture_loop v ((False, bs) # rest) l (setSignalHandler s)"
    by (simp add: capture_loop_Cons setSignalHandler_def)
  show ?thesis
    by (rule conjI c1 c2 c3 c4 c5 c6 c7)+
qed

text \<open>
  Claim C8. The claim does not hold of the code when recognition is unavailable:
  \<open>initialize\<close> returns before its call of \<open>clearFiles\<close> when the model does not load and
  when the recognizer cannot be created, and \<open>main\<close> records all the same. The text file
  and the level file of an earlier session are then not reset before the loop, and the old
  text is still in the text file when the session is over; the first write of the session
  is the level of the second chunk.
\<close>

theorem reset_skipped_without_recognizer:
  "initialize vosk_unavailable (new_AudioRecorder stale_fs)
     = (False, new_AudioRecorder stale_fs)
   \<and> initialize vosk_no_recognizer (new_AudioRecorder stale_fs)
     = (False, (new_AudioRecorder stale_fs)\<lparr>model := Some ()\<rparr>)
   \<and> contents stale_fs OUTPUT_TEXT_FILE = Some (Text (''old words'' @ [newline]))
   \<and> contents stale_fs AUDIO_LEVEL_FILE = Some (Text (''7'' @ [newline]))
   \<and> fst (main vosk_no_recognizer example_env stale_fs) = Returned 0
   \<and> writes (fs (snd (main vosk_no_recognizer example_env stale_fs)))
     = [(AUDIO_LEVEL_FILE, Text (''5'' @ [newline])),
        (''mikrofon_20240101_120000.wav'', Binary (wav_bytes [16384, 16384, 16384])),
        (AUDIO_LEVEL_FILE, Text (''0'' @ [newline]))]
   \<and> contents (fs (snd (main vosk_no_recognizer example_env stale_fs))) OUTPUT_TEXT_FILE
     = Some (Text (''old words'' @ [newline]))
   \<and> fst (main vosk_stub example_env stale_fs) = Returned 0
   \<and> take 2 (writes (fs (snd (main vosk_stub example_env stale_fs))))
     = [(OUTPUT_TEXT_FILE, Text [newline]), (AUDIO_LEVEL_FILE, Text (''0'' @ [newline]))]"
proof -
  have c1: "initialize vosk_unavailable (new_AudioRecorder stale_fs)
     = (False, new_AudioRecorder stale_fs)"
    by (simp add: eval_session vosk_unavailable_def stale_fs_def OUTPUT_TEXT_FILE_def
        AUDIO_LEVEL_FILE_def)
  have c2: "initialize vosk_no_recognizer (new_AudioRecorder stale_fs)
     = (False, (new_AudioRecorder stale_fs)\<lparr>model := Some ()\<rparr>)"
    by (simp add: eval_session vosk_no_recognizer_def vosk_stub_def stale_fs_def
        OUTPUT_TEXT_FILE_def AUDIO_LEVEL_FILE_def)
  have c3: "contents stale_fs OUTPUT_TEXT_FILE = Some (Text (''old words'' @ [newline]))"
    and c4: "contents stale_fs AUDIO_LEVEL_FILE = Some (Text (''7'' @ [newline]))"
    by (simp_all add: stale_fs_def OUTPUT_TEXT_FILE_def AUDIO_LEVEL_FILE_def)
  have c5: "fst (main vosk_no_recognizer example_env stale_fs) = Returned 0"
    by (simp add: eval_session vosk_no_recognizer_def vosk_stub_def example_env_def
        stale_fs_def OUTPUT_TEXT_FILE_def AUDIO_LEVEL_FILE_def)
  have c6: "writes (fs (snd (main vosk_no_recognizer example_env stale_fs)))
     = [(AUDIO_LEVEL_FILE, Text (''5'' @ [newline])),
        (''mikrofon_20240101_120000.wav'', Binary (wav_bytes [16384, 16384, 16384])),
        (AUDIO_LEVEL_FILE, Text (''0'' @ [newline]))]"
    by (simp add: eval_session vosk_no_recognizer_def vosk_stub_def example_env_def
        stale_fs_def)
  have c7: "contents (fs (snd (main vosk_no_recognizer example_env stale_fs))) OUTPUT_TEXT_FILE
     = Some (Text (''old words'' @ [newline]))"
    by (simp add: eval_session vosk_no_recognizer_def vosk_stub_def example_env_def
        stale_fs_def OUTPUT_TEXT_FILE_def AUDIO_LEVEL_FILE_def)
  have c8: "fst (main vosk_stub example_env stale_fs) = Returned 0"
    by (simp add: eval_session vosk_stub_def example_env_def stale_fs_def
        OUTPUT_TEXT_FILE_def AUDIO_LEVEL_FILE_def)
  have c9: "take 2 (writes (fs (snd (main vosk_stub example_env stale_fs))))
     = [(OUTPUT_TEXT_FILE, Text [newline]), (AUDIO_LEVEL_FILE, Text (''0'' @ [newline]))]"
    by (simp add: eval_session vosk_stub_def example_env_def stale_fs_def)
  show ?thesis
    by (rule conjI c1 c2 c3 c4 c5 c6 c7 c8 c9)+
qed


end
